theory Spec2Isabelle
  imports Complex_Main "HOL-Library.Char_ord" "HOL-Library.List_Lexorder" "HOL-Library.Product_Lexorder"
    "HOL-Library.Multiset"
begin

section \<open>Retry planner (app/utils/retry\_handler.py)\<close>

text \<open>
  Python floats are modelled as reals, Python ints as \<open>int\<close>. The draw of
  \<^verbatim>\<open>random.random()\<close> that \<^verbatim>\<open>random.uniform\<close> consumes is an explicit argument
  \<open>u\<close> (a number of the unit interval); \<^verbatim>\<open>random.uniform(a, b)\<close> is
  \<^verbatim>\<open>a + (b - a) * random()\<close>.
\<close>

record RetryPlan =
  max_attempts :: int
  delays :: "real list"

text \<open>\<^verbatim>\<open>RETRY_CONFIGS\<close>: priority, then (max\_attempts, delays).\<close>

definition RETRY_CONFIGS :: "(string \<times> (int \<times> int list)) list" where
  "RETRY_CONFIGS =
     [(''critical'', (5, [1, 5, 15, 60, 300])),
      (''high'', (3, [5, 30, 120])),
      (''normal'', (2, [10, 60])),
      (''low'', (1, []))]"

definition uniform :: "real \<Rightarrow> real \<Rightarrow> real \<Rightarrow> real" where
  "uniform a b u = a + (b - a) * u"

text \<open>\<^verbatim>\<open>2 ** e\<close> for an integer exponent (a negative exponent gives a float).\<close>

definition pow2 :: "int \<Rightarrow> real" where
  "pow2 e = (if 0 \<le> e then 2 ^ nat e else 1 / 2 ^ nat (- e))"

definition backoff_with_jitter :: "real \<Rightarrow> int \<Rightarrow> real \<Rightarrow> real \<Rightarrow> real" where
  "backoff_with_jitter base_delay attempt jitter_ratio u =
     (let delay = base_delay * pow2 (attempt - 1);
          jitter = delay * jitter_ratio
      in max 0 (delay + uniform (- jitter) jitter u))"

definition next_delay :: "RetryPlan \<Rightarrow> int \<Rightarrow> real \<Rightarrow> real" where
  "next_delay plan attempt_number u =
     (if attempt_number \<le> 1 then 0
      else let idx = attempt_number - 2 in
        if idx < int (length (delays plan)) then delays plan ! nat idx
        else let base = (if delays plan \<noteq> [] then last (delays plan) else 1)
             in backoff_with_jitter base (attempt_number - int (length (delays plan))) (2 / 10) u)"

definition get_retry_plan :: "string \<Rightarrow> RetryPlan" where
  "get_retry_plan priority =
     (let cfg = (case map_of RETRY_CONFIGS priority of
                   Some c \<Rightarrow> c
                 | None \<Rightarrow> the (map_of RETRY_CONFIGS ''normal''))
      in \<lparr>max_attempts = fst cfg, delays = map real_of_int (snd cfg)\<rparr>)"

text \<open>
  The bounds of the fallback delay as the specification words them: the 20 percent
  interval around \<open>base * 2^n\<close> with \<open>n = k - len(delays)\<close>, clamped at 0.
\<close>

definition backoff_base :: "RetryPlan \<Rightarrow> real" where
  "backoff_base plan = (if delays plan \<noteq> [] then last (delays plan) else 1)"

definition spec_jitter_lo :: "RetryPlan \<Rightarrow> int \<Rightarrow> real" where
  "spec_jitter_lo plan k = max 0 (0.8 * backoff_base plan * pow2 (k - int (length (delays plan))))"

definition spec_jitter_hi :: "RetryPlan \<Rightarrow> int \<Rightarrow> real" where
  "spec_jitter_hi plan k = 1.2 * backoff_base plan * pow2 (k - int (length (delays plan)))"

text \<open>The bounds the code keeps: the exponent is \<open>n - 1\<close>.\<close>

definition code_jitter_lo :: "RetryPlan \<Rightarrow> int \<Rightarrow> real" where
  "code_jitter_lo plan k = max 0 (0.8 * backoff_base plan * pow2 (k - int (length (delays plan)) - 1))"

definition code_jitter_hi :: "RetryPlan \<Rightarrow> int \<Rightarrow> real" where
  "code_jitter_hi plan k = 1.2 * backoff_base plan * pow2 (k - int (length (delays plan)) - 1)"

section \<open>Circuit breaker (app/utils/retry\_handler.py)\<close>

text \<open>
  The reading of \<^verbatim>\<open>time.time()\<close> is the argument \<open>now\<close>. The nested call of
  \<^verbatim>\<open>allow_request\<close> reads the clock again, but it runs in state \<open>half_open\<close>,
  whose branch does not consult the reading.
\<close>

record CircuitBreaker =
  failure_threshold :: int
  cooldown_seconds :: real
  state :: string
  failure_count :: int
  opened_at :: "real option"
  half_open_probe_in_flight :: bool

definition new_CircuitBreaker :: "int \<Rightarrow> real \<Rightarrow> CircuitBreaker" where
  "new_CircuitBreaker th cd =
     \<lparr>failure_threshold = th, cooldown_seconds = cd, state = ''closed'',
      failure_count = 0, opened_at = None, half_open_probe_in_flight = False\<rparr>"

definition on_success :: "CircuitBreaker \<Rightarrow> CircuitBreaker" where
  "on_success cb =
     cb\<lparr>state := ''closed'', failure_count := 0, opened_at := None,
        half_open_probe_in_flight := False\<rparr>"

definition on_failure :: "real \<Rightarrow> CircuitBreaker \<Rightarrow> CircuitBreaker" where
  "on_failure now cb =
     (if state cb = ''half_open'' then
        cb\<lparr>state := ''open'', opened_at := Some now, half_open_probe_in_flight := False,
           failure_count := max (failure_count cb) (failure_threshold cb)\<rparr>
      else let cb1 = cb\<lparr>failure_count := failure_count cb + 1\<rparr> in
        if failure_count cb1 \<ge> failure_threshold cb1
        then cb1\<lparr>state := ''open'', opened_at := Some now\<rparr>
        else cb1)"

function allow_request :: "real \<Rightarrow> CircuitBreaker \<Rightarrow> bool \<times> CircuitBreaker" where
  "allow_request now cb =
     (if state cb = ''closed'' then (True, cb)
      else if state cb = ''open'' then
        (case opened_at cb of
           None \<Rightarrow> (False, cb\<lparr>opened_at := Some now\<rparr>)
         | Some t \<Rightarrow>
             if now - t \<ge> cooldown_seconds cb
             then allow_request now (cb\<lparr>state := ''half_open'', half_open_probe_in_flight := False\<rparr>)
             else (False, cb))
      else if state cb = ''half_open'' then
        (if \<not> half_open_probe_in_flight cb
         then (True, cb\<lparr>half_open_probe_in_flight := True\<rparr>)
         else (False, cb))
      else (False, cb))"
  by pat_completeness auto
termination
  by (relation "measure (\<lambda>(now, cb). if state cb = ''open'' then 1 else 0)") auto

declare allow_request.simps [simp del]

section \<open>Rate limiter (app/utils/rate\_limiter.py)\<close>

record TokenBucket =
  capacity :: real
  refill_rate :: real
  tokens :: real
  last_refill :: real

definition try_consume :: "real \<Rightarrow> real \<Rightarrow> TokenBucket \<Rightarrow> bool \<times> TokenBucket" where
  "try_consume now amount b =
     (let elapsed = now - last_refill b;
          b1 = (if elapsed > 0
                then b\<lparr>tokens := min (capacity b) (tokens b + elapsed * refill_rate b),
                       last_refill := now\<rparr>
                else b)
      in if tokens b1 \<ge> amount then (True, b1\<lparr>tokens := tokens b1 - amount\<rparr>)
         else (False, b1))"

record RateLimiter =
  rl_capacity :: real
  rl_refill_rate :: real
  buckets :: "string \<rightharpoonup> TokenBucket"

definition new_RateLimiter :: "real \<Rightarrow> real \<Rightarrow> RateLimiter" where
  "new_RateLimiter cap rate = \<lparr>rl_capacity = cap, rl_refill_rate = rate, buckets = Map.empty\<rparr>"

text \<open>
  The bucket \<^verbatim>\<open>allow\<close> works on: the stored one, or a full one stamped with the
  clock reading \<open>created\<close> for a key not seen before.
\<close>

definition bucket_for :: "RateLimiter \<Rightarrow> string \<Rightarrow> real \<Rightarrow> TokenBucket" where
  "bucket_for rl key created =
     (case buckets rl key of
        None \<Rightarrow> \<lparr>capacity = rl_capacity rl, refill_rate = rl_refill_rate rl,
                  tokens = rl_capacity rl, last_refill = created\<rparr>
      | Some b \<Rightarrow> b)"

text \<open>
  \<^verbatim>\<open>allow\<close> reads the clock when it creates a bucket (\<open>created\<close>) and again in
  \<^verbatim>\<open>try_consume\<close> (\<open>now\<close>). The bucket object is shared with the dictionary, so
  the consumed bucket is the stored one.
\<close>

definition allow :: "RateLimiter \<Rightarrow> string \<Rightarrow> real \<Rightarrow> real \<Rightarrow> real \<Rightarrow> bool \<times> RateLimiter" where
  "allow rl key amount created now =
     (let (ok, b) = try_consume now amount (bucket_for rl key created)
      in (ok, rl\<lparr>buckets := (buckets rl)(key \<mapsto> b)\<rparr>))"

text \<open>A burst: \<open>n\<close> calls of \<^verbatim>\<open>allow(key)\<close> (amount 1), every clock reading \<open>now\<close>.\<close>

fun allow_burst :: "nat \<Rightarrow> RateLimiter \<Rightarrow> string \<Rightarrow> real \<Rightarrow> bool list \<times> RateLimiter" where
  "allow_burst 0 rl key now = ([], rl)"
| "allow_burst (Suc n) rl key now =
     (let (ok, rl1) = allow rl key 1 now now;
          (oks, rl2) = allow_burst n rl1 key now
      in (ok # oks, rl2))"

text \<open>
  The refill as the specification words it: always
  \<open>tokens := min(capacity, tokens + (now - last_refill) * refill_rate)\<close> and
  \<open>last_refill := now\<close>, then the test against \<open>amount\<close>.
\<close>

definition spec_try_consume :: "real \<Rightarrow> real \<Rightarrow> TokenBucket \<Rightarrow> bool \<times> TokenBucket" where
  "spec_try_consume now amount b =
     (let b1 = b\<lparr>tokens := min (capacity b) (tokens b + (now - last_refill b) * refill_rate b),
                 last_refill := now\<rparr>
      in if tokens b1 \<ge> amount then (True, b1\<lparr>tokens := tokens b1 - amount\<rparr>)
         else (False, b1))"

definition spec_allow :: "RateLimiter \<Rightarrow> string \<Rightarrow> real \<Rightarrow> real \<Rightarrow> real \<Rightarrow> bool \<times> RateLimiter" where
  "spec_allow rl key amount created now =
     (let (ok, b) = spec_try_consume now amount (bucket_for rl key created)
      in (ok, rl\<lparr>buckets := (buckets rl)(key \<mapsto> b)\<rparr>))"

text \<open>An example: a limiter with one half-full bucket, last refilled at time 100.\<close>

definition example_limiter :: RateLimiter where
  "example_limiter =
     \<lparr>rl_capacity = 10, rl_refill_rate = 1,
      buckets = [''recipient:a'' \<mapsto> \<lparr>capacity = 10, refill_rate = 1, tokens = 5, last_refill = 100\<rparr>]\<rparr>"

section \<open>Priority queue (app/services/queue\_service.py)\<close>

text \<open>
  A queue entry is the tuple \<open>(priority_value, seq, tracking_id)\<close>; Python compares
  tuples lexicographically, which is the order of \<open>int \<times> int \<times> string\<close> here.
  \<^verbatim>\<open>asyncio.PriorityQueue\<close> keeps its entries in a binary heap and \<^verbatim>\<open>get\<close> takes the
  least one; the model keeps the entries in a list and takes the least one. The queue
  is unbounded, so \<^verbatim>\<open>put_nowait\<close> never fails.
\<close>

type_synonym entry = "int \<times> int \<times> string"

definition priority_value :: "string \<Rightarrow> int" where
  "priority_value priority =
     (case map_of [(''critical'', 0), (''high'', 1), (''normal'', 2), (''low'', 3)] priority of
        Some v \<Rightarrow> v
      | None \<Rightarrow> 2)"

definition put_nowait :: "entry list \<Rightarrow> entry \<Rightarrow> entry list" where
  "put_nowait q e = q @ [e]"

fun least :: "entry \<Rightarrow> entry list \<Rightarrow> entry" where
  "least m [] = m"
| "least m (e # es) = least (if e < m then e else m) es"

text \<open>\<^verbatim>\<open>get\<close> on an empty queue waits; here it is \<open>None\<close>.\<close>

definition queue_get :: "entry list \<Rightarrow> (entry \<times> entry list) option" where
  "queue_get q =
     (case q of
        [] \<Rightarrow> None
      | e # es \<Rightarrow> Some (least e es, remove1 (least e es) q))"

text \<open>The order in which a queue is emptied when nothing is put meanwhile.\<close>

function drain :: "entry list \<Rightarrow> entry list" where
  "drain q = (case queue_get q of None \<Rightarrow> [] | Some (e, q') \<Rightarrow> e # drain q')"
  by pat_completeness auto

lemma least_in: "least m es \<in> set (m # es)"
  by (induction es arbitrary: m) auto

lemma queue_get_length: "queue_get q = Some (e, q') \<Longrightarrow> length q' < length q"
proof (cases q)
  case Nil
  assume "queue_get q = Some (e, q')"
  with Nil show ?thesis by (simp add: queue_get_def)
next
  case (Cons a as)
  assume h: "queue_get q = Some (e, q')"
  have "least a as \<in> set q" using least_in [of a as] Cons by simp
  moreover have "q' = remove1 (least a as) q" using h Cons by (auto simp: queue_get_def)
  ultimately show ?thesis using Cons by (simp add: length_remove1 del: remove1.simps)
qed

termination drain
  by (relation "measure length") (auto simp: queue_get_length)

declare drain.simps [simp del]

section \<open>Requests and stored rows (app/models.py, app/database.py)\<close>

text \<open>
  JSON values carry the payload of a request (content, variables, metadata,
  template\_id). They flow into rendering and the channel adapter only; the model
  does not validate their shapes.
\<close>

datatype json = JNull | JBool bool | JNum int | JFloat real | JStr string | JArr "json list"
  | JObj "(string \<times> json) list"

text \<open>Python's truth value, \<^verbatim>\<open>x or {}\<close>, \<^verbatim>\<open>d.get(k)\<close> and \<^verbatim>\<open>k in d\<close>.\<close>

fun truthy :: "json \<Rightarrow> bool" where
  "truthy JNull = False"
| "truthy (JBool b) = b"
| "truthy (JNum n) = (n \<noteq> 0)"
| "truthy (JFloat x) = (x \<noteq> 0)"
| "truthy (JStr s) = (s \<noteq> [])"
| "truthy (JArr xs) = (xs \<noteq> [])"
| "truthy (JObj kvs) = (kvs \<noteq> [])"

definition or_empty :: "json \<Rightarrow> json" where
  "or_empty x = (if truthy x then x else JObj [])"

fun dict_get :: "json \<Rightarrow> string \<Rightarrow> json" where
  "dict_get (JObj kvs) k = (case map_of kvs k of Some v \<Rightarrow> v | None \<Rightarrow> JNull)"
| "dict_get _ k = JNull"

fun has_key :: "json \<Rightarrow> string \<Rightarrow> bool" where
  "has_key (JObj kvs) k = (k \<in> set (map fst kvs))"
| "has_key _ k = False"

text \<open>Datetimes are counts of time units: since the epoch, or of a wall clock.\<close>

type_synonym datetime = int

datatype exn = ValidationError | IntegrityError | ZoneInfoNotFoundError | CroniterBadCronError

text \<open>
  What a channel adapter's \<^verbatim>\<open>send\<close> does: it returns its metadata or raises; an
  exception carries its message (\<^verbatim>\<open>str(e)\<close>).
\<close>

datatype send_outcome =
  Returned json
  | PermanentChannelError string
  | TransientChannelError string
  | OtherException string

record NotificationRequest =
  r_channel :: string
  r_recipient :: string
  r_template_id :: json
  r_content :: json
  r_variables :: json
  r_priority :: string
  r_metadata :: json

text \<open>
  \<^verbatim>\<open>str.strip()\<close>, on the ASCII white space (the characters 9 to 13, 28 to 32).
\<close>

definition is_space :: "char \<Rightarrow> bool" where
  "is_space c = ((of_char c :: nat) \<in> set [9, 10, 11, 12, 13, 28, 29, 30, 31, 32])"

definition strip :: "string \<Rightarrow> string" where
  "strip s = rev (dropWhile is_space (rev (dropWhile is_space s)))"

text \<open>
  Building a \<^verbatim>\<open>NotificationRequest\<close> validates it: \<open>channel\<close> and \<open>priority\<close> are
  \<^verbatim>\<open>Literal\<close> types, and the validator of \<open>recipient\<close> refuses a blank string and
  strips the others.
\<close>

definition Channel :: "string list" where
  "Channel = [''email'', ''sms'', ''webhook'', ''push'']"

definition Priority :: "string list" where
  "Priority = [''low'', ''normal'', ''high'', ''critical'']"

definition new_NotificationRequest :: "NotificationRequest \<Rightarrow> exn + NotificationRequest" where
  "new_NotificationRequest raw =
     (if r_channel raw \<notin> set Channel then Inl ValidationError
      else if strip (r_recipient raw) = [] then Inl ValidationError
      else if r_priority raw \<notin> set Priority then Inl ValidationError
      else Inr (raw\<lparr>r_recipient := strip (r_recipient raw)\<rparr>))"

text \<open>An example request with an inline body.\<close>

definition example_request :: "string \<Rightarrow> string \<Rightarrow> string \<Rightarrow> NotificationRequest" where
  "example_request ch rcpt prio =
     \<lparr>r_channel = ch, r_recipient = rcpt, r_template_id = JNull,
      r_content = JObj [(''body'', JStr ''hi'')], r_variables = JObj [],
      r_priority = prio, r_metadata = JObj []\<rparr>"

record Notification =
  tracking_id :: string
  channel :: string
  recipient :: string
  content :: json
  status :: string
  priority :: string
  attempts :: int
  created_at :: datetime
  scheduled_for :: "datetime option"
  delivered_at :: "datetime option"
  last_attempt_at :: "datetime option"
  failure_reason :: "string option"

record DeliveryAttempt =
  a_id :: string
  a_tracking_id :: string
  a_attempt_number :: int
  a_status :: string
  a_error_message :: "string option"
  a_response_code :: "int option"
  a_attempted_at :: datetime
  a_latency_ms :: real

section \<open>Queue workers (app/services/queue\_service.py)\<close>

text \<open>
  The state of the service: the two tables, the module's globals and the pending
  \<^verbatim>\<open>_delayed_requeue\<close> tasks (delay, tracking id, priority). \<open>cb_cooldown\<close> is the
  value of the environment variable \<^verbatim>\<open>CB_COOLDOWN\<close>. \<^verbatim>\<open>_ready_queue\<close> is created
  empty by \<^verbatim>\<open>_ensure_ready_queue\<close> before every use, so the absent queue and the
  empty one are the same list here.
\<close>

record pipeline =
  notifications :: "string \<rightharpoonup> Notification"
  delivery_attempts :: "DeliveryAttempt list"
  ready_queue :: "entry list"
  seq_counter :: int
  circuit_breakers :: "string \<rightharpoonup> CircuitBreaker"
  rate_limiter :: "RateLimiter option"
  timers :: "(real \<times> string \<times> string) list"
  cb_cooldown :: real

definition initial :: "RateLimiter option \<Rightarrow> real \<Rightarrow> pipeline" where
  "initial rl cd =
     \<lparr>notifications = Map.empty, delivery_attempts = [], ready_queue = [], seq_counter = 0,
      circuit_breakers = Map.empty, rate_limiter = rl, timers = [], cb_cooldown = cd\<rparr>"

definition enqueue_ready :: "string \<Rightarrow> string \<Rightarrow> pipeline \<Rightarrow> pipeline" where
  "enqueue_ready tid prio s =
     (let seq = seq_counter s + 1
      in s\<lparr>seq_counter := seq,
           ready_queue := put_nowait (ready_queue s) (priority_value prio, seq, tid)\<rparr>)"

text \<open>
  \<^verbatim>\<open>enqueue_notification\<close>: \<open>tid\<close> is the value of \<^verbatim>\<open>new_tracking_id()\<close> and \<open>utcnow\<close>
  the reading of \<^verbatim>\<open>datetime.utcnow()\<close>. The tracking id is the primary key, so a
  row with an id already stored is refused by the database.
\<close>

definition enqueue_notification ::
  "string \<Rightarrow> datetime \<Rightarrow> NotificationRequest \<Rightarrow> pipeline \<Rightarrow> exn + pipeline" where
  "enqueue_notification tid utcnow req s =
     (let content_json = JObj
            [(''content'', or_empty (r_content req)),
             (''variables'', or_empty (r_variables req)),
             (''metadata'', or_empty (r_metadata req)),
             (''template_id'', r_template_id req)];
          notif = \<lparr>tracking_id = tid, channel = r_channel req, recipient = r_recipient req,
                   content = content_json, status = ''queued'', priority = r_priority req,
                   attempts = 0, created_at = utcnow, scheduled_for = None,
                   delivered_at = None, last_attempt_at = None, failure_reason = None\<rparr>
      in if tid \<in> dom (notifications s) then Inl IntegrityError
         else Inr (enqueue_ready tid (r_priority req)
                     (s\<lparr>notifications := (notifications s)(tid \<mapsto> notif)\<rparr>)))"

definition reconstruct_request_from_notif :: "Notification \<Rightarrow> exn + NotificationRequest" where
  "reconstruct_request_from_notif notif =
     (let c = or_empty (content notif) in
      if has_key c ''content'' \<or> has_key c ''variables'' \<or> has_key c ''metadata''
           \<or> has_key c ''template_id''
      then new_NotificationRequest
             \<lparr>r_channel = channel notif, r_recipient = recipient notif,
              r_template_id = dict_get c ''template_id'',
              r_content = or_empty (dict_get c ''content''),
              r_variables = or_empty (dict_get c ''variables''),
              r_priority = priority notif,
              r_metadata = or_empty (dict_get c ''metadata'')\<rparr>
      else new_NotificationRequest
             \<lparr>r_channel = channel notif, r_recipient = recipient notif,
              r_template_id = JNull, r_content = c, r_variables = JObj [],
              r_priority = priority notif, r_metadata = JObj []\<rparr>)"

definition get_or_create_cb :: "pipeline \<Rightarrow> string \<Rightarrow> CircuitBreaker" where
  "get_or_create_cb s rcpt =
     (case circuit_breakers s rcpt of
        None \<Rightarrow> new_CircuitBreaker 3 (cb_cooldown s)
      | Some cb \<Rightarrow> cb)"

text \<open>
  \<^verbatim>\<open>record_delivery_attempt\<close>: \<open>new_id\<close> is the value of \<^verbatim>\<open>new_tracking_id()\<close> for the
  attempt row and \<open>utcnow\<close> the reading of \<^verbatim>\<open>datetime.utcnow()\<close>.
\<close>

definition record_delivery_attempt ::
  "string \<Rightarrow> datetime \<Rightarrow> string \<Rightarrow> int \<Rightarrow> string \<Rightarrow> real \<Rightarrow> string option \<Rightarrow> int option
     \<Rightarrow> pipeline \<Rightarrow> pipeline" where
  "record_delivery_attempt new_id utcnow tid attempt_number st latency error_message response_code s =
     (let attempt = \<lparr>a_id = new_id, a_tracking_id = tid, a_attempt_number = attempt_number,
                     a_status = st, a_error_message = error_message,
                     a_response_code = response_code, a_attempted_at = utcnow,
                     a_latency_ms = latency\<rparr>;
          s1 = s\<lparr>delivery_attempts := delivery_attempts s @ [attempt]\<rparr>
      in case notifications s tid of
           None \<Rightarrow> s1
         | Some notif \<Rightarrow>
             let n1 = notif\<lparr>attempts := max (attempts notif) attempt_number,
                            last_attempt_at := Some (a_attempted_at attempt)\<rparr>;
                 n2 = (if st = ''delivered''
                       then n1\<lparr>status := ''delivered'',
                               delivered_at := Some (a_attempted_at attempt),
                               failure_reason := None\<rparr>
                       else if st = ''failed'' \<or> st = ''bounced''
                       then n1\<lparr>status := st, failure_reason := error_message\<rparr>
                       else n1)
             in s1\<lparr>notifications := (notifications s1)(tid \<mapsto> n2)\<rparr>)"

text \<open>
  What one call of \<^verbatim>\<open>_process_tracking_id\<close> reads from outside: the clock in
  \<^verbatim>\<open>allow_request\<close>, in the rate limiter (twice) and in \<^verbatim>\<open>on_failure\<close>, the UTC time
  and the id of the attempt row, the measured latency, the random draw of a jittered
  delay, and what rendering, \<^verbatim>\<open>get_channel\<close> and the adapter's \<^verbatim>\<open>send\<close> did.
\<close>

record readings =
  clock_allow :: real
  clock_bucket_created :: real
  clock_bucket :: real
  clock_outcome :: real
  utc_now :: datetime
  attempt_id :: string
  perf_latency_ms :: real
  jitter_draw :: real
  dispatch :: send_outcome

text \<open>The retry branch shared by the transient and the unclassified exception.\<close>

definition schedule_retry :: "readings \<Rightarrow> string \<Rightarrow> string \<Rightarrow> int \<Rightarrow> RetryPlan \<Rightarrow> pipeline \<Rightarrow> pipeline" where
  "schedule_retry rd tid prio attempt_number plan s =
     (if attempt_number < max_attempts plan
      then s\<lparr>timers := timers s @ [(next_delay plan (attempt_number + 1) (jitter_draw rd), tid, prio)]\<rparr>
      else s)"

text \<open>
  \<^verbatim>\<open>_process_tracking_id\<close>, in the blocks of the source: the breaker of the
  recipient, the optional rate limit, the attempt itself.
\<close>

definition check_breaker :: "readings \<Rightarrow> string \<Rightarrow> pipeline \<Rightarrow> bool \<times> CircuitBreaker \<times> pipeline" where
  "check_breaker rd rcpt s =
     (let (allowed, cb) = allow_request (clock_allow rd) (get_or_create_cb s rcpt)
      in (allowed, cb, s\<lparr>circuit_breakers := (circuit_breakers s)(rcpt \<mapsto> cb)\<rparr>))"

definition check_rate_limit :: "readings \<Rightarrow> string \<Rightarrow> pipeline \<Rightarrow> bool \<times> pipeline" where
  "check_rate_limit rd rcpt s =
     (case rate_limiter s of
        None \<Rightarrow> (True, s)
      | Some rl \<Rightarrow>
          let (ok, rl') = allow rl (''recipient:'' @ rcpt) 1 (clock_bucket_created rd) (clock_bucket rd)
          in (ok, s\<lparr>rate_limiter := Some rl'\<rparr>))"

definition attempt_send ::
  "readings \<Rightarrow> string \<Rightarrow> Notification \<Rightarrow> NotificationRequest \<Rightarrow> RetryPlan \<Rightarrow> CircuitBreaker
     \<Rightarrow> pipeline \<Rightarrow> pipeline" where
  "attempt_send rd tid notif req plan cb s =
     (let attempt_number = attempts notif + 1;
          s3 = s\<lparr>notifications := (notifications s)(tid \<mapsto> notif\<lparr>status := ''sending''\<rparr>)\<rparr>;
          failed = (\<lambda>msg.
            record_delivery_attempt (attempt_id rd) (utc_now rd) tid attempt_number
              ''failed'' (perf_latency_ms rd) (Some msg) None
              (s3\<lparr>circuit_breakers :=
                    (circuit_breakers s3)(r_recipient req \<mapsto> on_failure (clock_outcome rd) cb)\<rparr>))
      in case dispatch rd of
           Returned metadata \<Rightarrow>
             record_delivery_attempt (attempt_id rd) (utc_now rd) tid attempt_number
               ''delivered'' (perf_latency_ms rd) None None
               (s3\<lparr>circuit_breakers := (circuit_breakers s3)(r_recipient req \<mapsto> on_success cb)\<rparr>)
         | PermanentChannelError msg \<Rightarrow> failed msg
         | TransientChannelError msg \<Rightarrow>
             schedule_retry rd tid (r_priority req) attempt_number plan (failed msg)
         | OtherException msg \<Rightarrow>
             schedule_retry rd tid (r_priority req) attempt_number plan
               (failed (''unexpected: '' @ msg)))"

definition process_tracking_id :: "readings \<Rightarrow> string \<Rightarrow> pipeline \<Rightarrow> exn + pipeline" where
  "process_tracking_id rd tid s =
     (case notifications s tid of
        None \<Rightarrow> Inr s
      | Some notif \<Rightarrow>
         (case reconstruct_request_from_notif notif of
            Inl e \<Rightarrow> Inl e
          | Inr req \<Rightarrow>
             let plan = get_retry_plan (r_priority req);
                 (allowed, cb, s1) = check_breaker rd (r_recipient req) s
             in if \<not> allowed
                then Inr (record_delivery_attempt (attempt_id rd) (utc_now rd) tid
                            (attempts notif + 1) ''failed'' 0 (Some ''circuit_open'') None s1)
                else
                  let (ok, s2) = check_rate_limit rd (r_recipient req) s1
                  in if \<not> ok then Inr (enqueue_ready tid (r_priority req) s2)
                     else Inr (attempt_send rd tid notif req plan cb s2)))"

text \<open>
  One turn of \<^verbatim>\<open>_worker_loop\<close>: take the least entry and process its tracking id; an
  exception is logged and the worker goes on. \<open>None\<close>: the queue is empty and the
  worker waits.
\<close>

definition worker_step :: "readings \<Rightarrow> pipeline \<Rightarrow> pipeline option" where
  "worker_step rd s =
     (case queue_get (ready_queue s) of
        None \<Rightarrow> None
      | Some ((prio, seq, tid), q') \<Rightarrow>
          let s1 = s\<lparr>ready_queue := q'\<rparr>
          in Some (case process_tracking_id rd tid s1 of Inl e \<Rightarrow> s1 | Inr s2 \<Rightarrow> s2))"

text \<open>The \<open>i\<close>-th pending \<^verbatim>\<open>_delayed_requeue\<close> task wakes up and enqueues its id.\<close>

definition delayed_requeue :: "nat \<Rightarrow> pipeline \<Rightarrow> pipeline" where
  "delayed_requeue i s =
     (if i < length (timers s)
      then (case timers s ! i of
              (delay, tid, prio) \<Rightarrow>
                enqueue_ready tid prio (s\<lparr>timers := take i (timers s) @ drop (Suc i) (timers s)\<rparr>))
      else s)"

text \<open>
  The states the service reaches from its start: requests are admitted, workers take
  entries, retry timers fire. Each step is taken as a whole.
\<close>

inductive reachable :: "pipeline \<Rightarrow> bool" where
  start: "reachable (initial rl cd)"
| admit: "reachable s \<Longrightarrow> enqueue_notification tid utcnow req s = Inr s' \<Longrightarrow> reachable s'"
| work: "reachable s \<Longrightarrow> worker_step rd s = Some s' \<Longrightarrow> reachable s'"
| wake: "reachable s \<Longrightarrow> reachable (delayed_requeue i s)"

text \<open>
  A run of transient errors: for every reading of the list a worker takes the entry
  of the tracking id, the adapter is reached (the breaker and the rate limiter let
  the request through) and raises a transient error or an unclassified exception, and
  then the retry timer, if one was set, wakes up.
\<close>

definition reaches_adapter :: "readings \<Rightarrow> string \<Rightarrow> pipeline \<Rightarrow> bool" where
  "reaches_adapter rd tid s =
     (case notifications s tid of
        None \<Rightarrow> False
      | Some notif \<Rightarrow>
         (case reconstruct_request_from_notif notif of
            Inl e \<Rightarrow> False
          | Inr req \<Rightarrow>
              (let (allowed, cb, s1) = check_breaker rd (r_recipient req) s
               in allowed \<and> fst (check_rate_limit rd (r_recipient req) s1))))"

fun retryable :: "send_outcome \<Rightarrow> bool" where
  "retryable (TransientChannelError msg) = True"
| "retryable (OtherException msg) = True"
| "retryable _ = False"


definition attempts_of :: "pipeline \<Rightarrow> string \<Rightarrow> DeliveryAttempt list" where
  "attempts_of s tid = filter (\<lambda>a. a_tracking_id a = tid) (delivery_attempts s)"

definition timers_of :: "pipeline \<Rightarrow> string \<Rightarrow> (real \<times> string \<times> string) list" where
  "timers_of s tid = filter (\<lambda>t. fst (snd t) = tid) (timers s)"

text \<open>The status and the error message of the attempt row that an outcome leaves.\<close>

fun outcome_status :: "send_outcome \<Rightarrow> string" where
  "outcome_status (Returned m) = ''delivered''"
| "outcome_status _ = ''failed''"

fun outcome_message :: "send_outcome \<Rightarrow> string option" where
  "outcome_message (Returned m) = None"
| "outcome_message (PermanentChannelError msg) = Some msg"
| "outcome_message (TransientChannelError msg) = Some msg"
| "outcome_message (OtherException msg) = Some (''unexpected: '' @ msg)"

text \<open>
  Examples: a stored notification as \<^verbatim>\<open>enqueue_notification\<close> writes it, and the readings
  of one call of \<^verbatim>\<open>_process_tracking_id\<close> with every clock at \<open>t\<close>.
\<close>

definition example_notification :: "string \<Rightarrow> string \<Rightarrow> string \<Rightarrow> string \<Rightarrow> Notification" where
  "example_notification tid ch rcpt prio =
     \<lparr>tracking_id = tid, channel = ch, recipient = rcpt,
      content = JObj [(''content'', JObj [(''body'', JStr ''hi'')]), (''variables'', JObj []),
                      (''metadata'', JObj []), (''template_id'', JNull)],
      status = ''queued'', priority = prio, attempts = 0, created_at = 0, scheduled_for = None,
      delivered_at = None, last_attempt_at = None, failure_reason = None\<rparr>"

definition example_readings :: "real \<Rightarrow> send_outcome \<Rightarrow> readings" where
  "example_readings t out =
     \<lparr>clock_allow = t, clock_bucket_created = t, clock_bucket = t, clock_outcome = t,
      utc_now = 1000, attempt_id = ''attempt'', perf_latency_ms = 12, jitter_draw = 1 / 2,
      dispatch = out\<rparr>"

text \<open>
  A state with one stored notification, queued, and the same state with the breaker of
  its recipient open after three failures.
\<close>

definition example_pipeline :: "string \<Rightarrow> pipeline" where
  "example_pipeline prio =
     (initial None 60)\<lparr>notifications := [''t1'' \<mapsto> example_notification ''t1'' ''sms'' ''+15551234567'' prio],
                       ready_queue := [(priority_value prio, 1, ''t1'')], seq_counter := 1\<rparr>"

definition example_open_pipeline :: pipeline where
  "example_open_pipeline =
     (example_pipeline ''normal'')
       \<lparr>circuit_breakers := [''+15551234567'' \<mapsto> fold on_failure [1, 2, 3] (new_CircuitBreaker 3 60)]\<rparr>"

text \<open>
  The tracking ids in flight: one token for every queue entry and every pending retry
  timer. Two predicates on states, for the proofs: every token is the only one of its
  tracking id and belongs to a stored row not delivered yet; and a row with
  \<open>delivered_at\<close> set has status delivered.
\<close>

definition in_flight :: "pipeline \<Rightarrow> string multiset" where
  "in_flight s = image_mset (\<lambda>e. snd (snd e)) (mset (ready_queue s))
              + image_mset (\<lambda>t. fst (snd t)) (mset (timers s))"

definition token_inv :: "pipeline \<Rightarrow> bool" where
  "token_inv s \<longleftrightarrow>
     (\<forall>t. t \<in># in_flight s \<longrightarrow>
        count (in_flight s) t = 1 \<and> (\<exists>n. notifications s t = Some n \<and> delivered_at n = None))"

definition delivered_inv :: "pipeline \<Rightarrow> bool" where
  "delivered_inv s \<longleftrightarrow>
     (\<forall>t n. notifications s t = Some n \<longrightarrow> delivered_at n \<noteq> None \<longrightarrow> status n = ''delivered'')"

section \<open>Scheduler (app/services/scheduler\_service.py)\<close>

text \<open>
  Times are counts of seconds. An aware UTC datetime is the count since the epoch; a
  naive datetime is the count its wall clock shows. A time zone is taken by its offset
  from UTC in seconds: \<open>zone\<close> gives it for a zone name (\<open>None\<close>: \<^verbatim>\<open>ZoneInfo\<close> knows
  no such zone), and zones whose offset changes over the year are outside the model.
  \<open>cron expr base\<close> is \<^verbatim>\<open>croniter(expr, base).get_next\<close>: the first wall-clock time
  after \<open>base\<close> that the expression matches (\<open>None\<close>: the expression is refused).
  The column \<open>send_at\<close> holds naive datetimes, so \<^verbatim>\<open>_to_utc\<close> is its naive branch.
\<close>

record ScheduledNotification =
  schedule_id :: string
  notification_data :: NotificationRequest
  send_at :: datetime
  timezone :: string
  recurrence :: "string option"
  last_run :: "datetime option"
  active :: bool

definition to_utc :: "(string \<Rightarrow> int option) \<Rightarrow> datetime \<Rightarrow> string \<Rightarrow> exn + datetime" where
  "to_utc zone dt tz_name =
     (case zone tz_name of
        None \<Rightarrow> Inl ZoneInfoNotFoundError
      | Some off \<Rightarrow> Inr (dt - off))"

definition next_cron_time ::
  "(string \<Rightarrow> int option) \<Rightarrow> (string \<Rightarrow> datetime \<Rightarrow> datetime option) \<Rightarrow> datetime \<Rightarrow> string \<Rightarrow> string
     \<Rightarrow> exn + datetime" where
  "next_cron_time zone cron current cron_expr tz_name =
     (case zone tz_name of
        None \<Rightarrow> Inl ZoneInfoNotFoundError
      | Some off \<Rightarrow>
          (let base_local = current + off in
           case cron cron_expr base_local of
             None \<Rightarrow> Inl CroniterBadCronError
           | Some next_local \<Rightarrow> Inr (next_local - off)))"

text \<open>
  The body of the loop of \<^verbatim>\<open>_process_due_schedules\<close> for one active schedule.
  \<open>tid\<close> and \<open>utcnow\<close> are read by \<^verbatim>\<open>enqueue_notification\<close>. An exception is
  logged by the loop; the result is then \<open>Inl\<close>.
\<close>

definition process_due_schedule ::
  "(string \<Rightarrow> int option) \<Rightarrow> (string \<Rightarrow> datetime \<Rightarrow> datetime option) \<Rightarrow> datetime \<Rightarrow> string \<Rightarrow> datetime
     \<Rightarrow> ScheduledNotification \<Rightarrow> pipeline \<Rightarrow> exn + (ScheduledNotification \<times> pipeline)" where
  "process_due_schedule zone cron now_utc tid utcnow sched s =
     (let tz_name = (if timezone sched \<noteq> [] then timezone sched else ''UTC'') in
      case to_utc zone (send_at sched) tz_name of
        Inl e \<Rightarrow> Inl e
      | Inr send_at_utc \<Rightarrow>
          if send_at_utc \<le> now_utc \<and>
             (case last_run sched of None \<Rightarrow> True | Some lr \<Rightarrow> lr < send_at_utc)
          then
            (case new_NotificationRequest (notification_data sched) of
               Inl e \<Rightarrow> Inl e
             | Inr req \<Rightarrow>
                 (case enqueue_notification tid utcnow req s of
                    Inl e \<Rightarrow> Inl e
                  | Inr s' \<Rightarrow>
                      let sched1 = sched\<lparr>last_run := Some now_utc\<rparr> in
                      if recurrence sched \<noteq> None \<and> recurrence sched \<noteq> Some []
                      then (case next_cron_time zone cron send_at_utc (the (recurrence sched)) tz_name of
                              Inl e \<Rightarrow> Inl e
                            | Inr next_utc \<Rightarrow> Inr (sched1\<lparr>send_at := next_utc\<rparr>, s'))
                      else Inr (sched1\<lparr>active := False\<rparr>, s')))
          else Inr (sched, s))"

text \<open>
  An example environment: the zone table with UTC and Asia/Tokyo (nine hours ahead
  of UTC all year), and the cron expression \<^verbatim>\<open>0 9 * * *\<close>, which matches 09:00 of
  every day.
\<close>

definition example_zone :: "string \<Rightarrow> int option" where
  "example_zone = map_of [(''UTC'', 0), (''Asia/Tokyo'', 32400)]"

definition example_cron :: "string \<Rightarrow> datetime \<Rightarrow> datetime option" where
  "example_cron expr base =
     (if expr = ''0 9 * * *''
      then (let nine = (base div 86400) * 86400 + 32400
            in Some (if base < nine then nine else nine + 86400))
      else None)"

text \<open>
  An example schedule: every day at 09:00 in Tokyo, first on 2024-01-01. Its
  \<open>send_at\<close> is the wall clock 2024-01-01 09:00:00, which is 2024-01-01 00:00:00 UTC
  (1704067200 seconds after the epoch).
\<close>

definition example_schedule :: ScheduledNotification where
  "example_schedule =
     \<lparr>schedule_id = ''s1'',
      notification_data = example_request ''sms'' ''+15551234567'' ''normal'',
      send_at = 1704099600, timezone = ''Asia/Tokyo'', recurrence = Some ''0 9 * * *'',
      last_run = None, active = True\<rparr>"

section \<open>Webhook adapter (app/channels/webhook\_channel.py)\<close>

text \<open>
  What the POST did is the argument: a response with its status code and text, a
  timeout, or another \<^verbatim>\<open>httpx.HTTPError\<close> with its message. The headers and the
  payload flow into the POST only. Strings are ASCII here.
\<close>

datatype http_outcome = Response int string | TimeoutException | HTTPError string

definition lower_char :: "char \<Rightarrow> char" where
  "lower_char c =
     (if 65 \<le> (of_char c :: nat) \<and> (of_char c :: nat) \<le> 90 then char_of ((of_char c :: nat) + 32) else c)"

definition startswith :: "string \<Rightarrow> string \<Rightarrow> bool" where
  "startswith s p = (take (length p) s = p)"

function str_nat :: "nat \<Rightarrow> string" where
  "str_nat n =
     (if n < 10 then [char_of (48 + n)] else str_nat (n div 10) @ [char_of (48 + n mod 10)])"
  by pat_completeness auto
termination
  by (relation "measure id") auto

declare str_nat.simps [simp del]

definition str_int :: "int \<Rightarrow> string" where
  "str_int i = (if i < 0 then ''-'' @ str_nat (nat (- i)) else str_nat (nat i))"

definition webhook_send :: "NotificationRequest \<Rightarrow> http_outcome \<Rightarrow> real \<Rightarrow> send_outcome" where
  "webhook_send req http latency_ms =
     (if \<not> (startswith (map lower_char (r_recipient req)) ''http://''
             \<or> startswith (map lower_char (r_recipient req)) ''https://'')
      then PermanentChannelError ''Webhook recipient must be a valid URL''
      else case http of
        Response status_code txt \<Rightarrow>
          if 200 \<le> status_code \<and> status_code < 300
          then Returned (JObj [(''provider'', JStr ''http''), (''status_code'', JNum status_code),
                               (''latency_ms'', JFloat latency_ms)])
          else if 400 \<le> status_code \<and> status_code < 500
          then PermanentChannelError
                 (''Webhook responded with '' @ str_int status_code @ '': '' @ take 200 txt)
          else TransientChannelError
                 (''Webhook server error '' @ str_int status_code @ '': '' @ take 200 txt)
      | TimeoutException \<Rightarrow> TransientChannelError ''Webhook timeout after 10.0s''
      | HTTPError msg \<Rightarrow> TransientChannelError (''Webhook HTTP error: '' @ msg))"

section \<open>Properties of the retry planner\<close>

lemma get_retry_plan_cases:
  "get_retry_plan p = \<lparr>max_attempts = 5, delays = [1, 5, 15, 60, 300]\<rparr> \<or>
   get_retry_plan p = \<lparr>max_attempts = 3, delays = [5, 30, 120]\<rparr> \<or>
   get_retry_plan p = \<lparr>max_attempts = 2, delays = [10, 60]\<rparr> \<or>
   get_retry_plan p = \<lparr>max_attempts = 1, delays = []\<rparr>"
  by (simp add: get_retry_plan_def RETRY_CONFIGS_def)

lemma backoff_base_nonneg: "0 \<le> backoff_base (get_retry_plan p)"
  using get_retry_plan_cases [of p] by (auto simp: backoff_base_def)

lemma pow2_pos: "0 < pow2 e"
  by (simp add: pow2_def)

lemma backoff_bounds:
  assumes "0 \<le> b" "0 \<le> u" "u \<le> 1"
  shows "max 0 (0.8 * b * pow2 (a - 1)) \<le> backoff_with_jitter b a (2/10) u"
    and "backoff_with_jitter b a (2/10) u \<le> 1.2 * b * pow2 (a - 1)"
proof -
  define d where "d = b * pow2 (a - 1)"
  have d: "0 \<le> d" using assms pow2_pos [of "a - 1"] by (simp add: d_def)
  have e: "backoff_with_jitter b a (2/10) u = max 0 (d + (- (d * (2/10)) + (d * (2/10) - - (d * (2/10))) * u))"
    by (simp add: backoff_with_jitter_def uniform_def Let_def d_def)
  have m: "0 \<le> d * u" "d * u \<le> d" using d assms by (simp_all add: mult_left_le)
  have lo: "max 0 (0.8 * d) \<le> backoff_with_jitter b a (2/10) u"
    unfolding e using d m by (simp add: algebra_simps)
  have hi: "backoff_with_jitter b a (2/10) u \<le> 1.2 * d"
    unfolding e using d m by (simp add: algebra_simps)
  show "max 0 (0.8 * b * pow2 (a - 1)) \<le> backoff_with_jitter b a (2/10) u"
    using lo by (simp add: d_def mult.assoc)
  show "backoff_with_jitter b a (2/10) u \<le> 1.2 * b * pow2 (a - 1)"
    using hi by (simp add: d_def mult.assoc)
qed

text \<open>
  Claim C1, as the code has it. For every plan of the priority table and every draw
  \<open>u\<close> of the unit interval: \<^verbatim>\<open>next_delay\<close> is 0 before attempt 1; before an attempt
  \<open>k \<ge> 2\<close> with \<open>k - 2 < len(delays)\<close> it is \<open>delays[k - 2]\<close>; and for
  \<open>k - 2 \<ge> len(delays)\<close> it lies in the 20 percent interval around
  \<open>base * 2^(n - 1)\<close>, clamped at 0, where \<open>base\<close> is the last configured delay (1 if
  there is none) and \<open>n = k - len(delays)\<close>.
\<close>

theorem next_delay_table:
  assumes "0 \<le> u" "u \<le> 1"
  shows "next_delay (get_retry_plan p) 1 u = 0 \<and>
         (2 \<le> k \<and> k - 2 < int (length (delays (get_retry_plan p))) \<longrightarrow>
            next_delay (get_retry_plan p) k u = delays (get_retry_plan p) ! nat (k - 2)) \<and>
         (k - 2 \<ge> int (length (delays (get_retry_plan p))) \<longrightarrow>
            code_jitter_lo (get_retry_plan p) k \<le> next_delay (get_retry_plan p) k u \<and>
            next_delay (get_retry_plan p) k u \<le> code_jitter_hi (get_retry_plan p) k)"
proof -
  let ?P = "get_retry_plan p"
  have 1: "next_delay ?P 1 u = 0" by (simp add: next_delay_def)
  have 2: "next_delay ?P k u = delays ?P ! nat (k - 2)"
    if "2 \<le> k \<and> k - 2 < int (length (delays ?P))"
    using that by (simp add: next_delay_def Let_def)
  have 3: "code_jitter_lo ?P k \<le> next_delay ?P k u \<and> next_delay ?P k u \<le> code_jitter_hi ?P k"
    if h: "k - 2 \<ge> int (length (delays ?P))"
  proof -
    have k: "\<not> k \<le> 1" "\<not> k - 2 < int (length (delays ?P))" using h by auto
    have e: "next_delay ?P k u = backoff_with_jitter (backoff_base ?P) (k - int (length (delays ?P))) (2/10) u"
      using k by (simp add: next_delay_def Let_def backoff_base_def)
    show ?thesis
      unfolding e code_jitter_lo_def code_jitter_hi_def
      using backoff_bounds [OF backoff_base_nonneg assms, of p "k - int (length (delays ?P))"]
      by simp
  qed
  from 1 2 3 show ?thesis by blast
qed

theorem next_delay_table_witness:
  "next_delay (get_retry_plan ''critical'') 1 (1 / 2) = 0 \<and>
   next_delay (get_retry_plan ''critical'') 3 (1 / 2) = 5 \<and>
   code_jitter_lo (get_retry_plan ''low'') 2 \<le> next_delay (get_retry_plan ''low'') 2 (1 / 2) \<and>
   next_delay (get_retry_plan ''low'') 2 (1 / 2) \<le> code_jitter_hi (get_retry_plan ''low'') 2"
proof -
  have u: "(0::real) \<le> 1 / 2" "(1 / 2 :: real) \<le> 1" by simp_all
  have a: "next_delay (get_retry_plan ''critical'') 1 (1 / 2) = 0 \<and>
           next_delay (get_retry_plan ''critical'') 3 (1 / 2) = 5"
    using next_delay_table [OF u, of "''critical''" 3]
    by (simp add: get_retry_plan_def RETRY_CONFIGS_def)
  have b: "code_jitter_lo (get_retry_plan ''low'') 2 \<le> next_delay (get_retry_plan ''low'') 2 (1 / 2) \<and>
           next_delay (get_retry_plan ''low'') 2 (1 / 2) \<le> code_jitter_hi (get_retry_plan ''low'') 2"
    using next_delay_table [OF u, of "''low''" 2]
    by (simp add: get_retry_plan_def RETRY_CONFIGS_def)
  from a b show ?thesis by blast
qed

text \<open>
  The interval as the specification words it, around \<open>base * 2^n\<close>, does not hold the
  delay: the plan of priority low has no configured delay, so before attempt 2 the
  delay is drawn around \<open>1 * 2^1 = 2\<close> (it is 2 for the draw 1/2), while the worded
  interval is [3.2, 4.8].
\<close>

theorem next_delay_spec_interval_counterexample:
  "\<not> (spec_jitter_lo (get_retry_plan ''low'') 2 \<le> next_delay (get_retry_plan ''low'') 2 (1/2) \<and>
      next_delay (get_retry_plan ''low'') 2 (1/2) \<le> spec_jitter_hi (get_retry_plan ''low'') 2)"
  by (simp add: next_delay_def get_retry_plan_def RETRY_CONFIGS_def spec_jitter_lo_def
      spec_jitter_hi_def backoff_base_def backoff_with_jitter_def uniform_def pow2_def Let_def)

section \<open>Properties of the circuit breaker\<close>

lemma on_failure_below:
  "state cb \<noteq> ''half_open'' \<Longrightarrow> failure_count cb + 1 < failure_threshold cb \<Longrightarrow>
   on_failure now cb = cb\<lparr>failure_count := failure_count cb + 1\<rparr>"
  by (simp add: on_failure_def Let_def)

lemma on_failure_reach:
  "state cb \<noteq> ''half_open'' \<Longrightarrow> failure_threshold cb \<le> failure_count cb + 1 \<Longrightarrow>
   on_failure now cb = cb\<lparr>failure_count := failure_count cb + 1, state := ''open'', opened_at := Some now\<rparr>"
  by (simp add: on_failure_def Let_def)

lemma fold_on_failure_closed:
  "state cb = ''closed'' \<Longrightarrow> failure_count cb + int (length ts) < failure_threshold cb \<Longrightarrow>
   fold on_failure ts cb = cb\<lparr>failure_count := failure_count cb + int (length ts)\<rparr>"
proof (induction ts arbitrary: cb)
  case Nil
  then show ?case by simp
next
  case (Cons t ts)
  have s: "on_failure t cb = cb\<lparr>failure_count := failure_count cb + 1\<rparr>"
    using Cons.prems by (intro on_failure_below) auto
  have "fold on_failure ts (on_failure t cb) =
        (on_failure t cb)\<lparr>failure_count := failure_count (on_failure t cb) + int (length ts)\<rparr>"
    using Cons.prems by (intro Cons.IH) (auto simp: s)
  then show ?case by (simp add: s add.assoc)
qed

lemma threshold_failures_open:
  assumes "state cb = ''closed''" "failure_count cb = 0" "1 \<le> failure_threshold cb"
    "int (length ts) = failure_threshold cb"
  shows "state (fold on_failure ts cb) = ''open''"
    and "opened_at (fold on_failure ts cb) = Some (last ts)"
    and "\<forall>k<length ts. state (fold on_failure (take k ts) cb) = ''closed''"
proof -
  have ne: "ts \<noteq> []" using assms by auto
  then have ts: "ts = butlast ts @ [last ts]" by simp
  have b: "fold on_failure (butlast ts) cb = cb\<lparr>failure_count := int (length (butlast ts))\<rparr>"
    using fold_on_failure_closed [of cb "butlast ts"] assms ne by simp
  have f: "fold on_failure ts cb = on_failure (last ts) (fold on_failure (butlast ts) cb)"
    by (subst ts) simp
  have l: "int (length (butlast ts)) + 1 = failure_threshold cb"
    using assms ne by (simp add: of_nat_diff)
  have o: "fold on_failure ts cb =
     cb\<lparr>failure_count := int (length (butlast ts)) + 1, state := ''open'', opened_at := Some (last ts)\<rparr>"
    unfolding f b using assms l by (subst on_failure_reach) auto
  show "state (fold on_failure ts cb) = ''open''" by (simp add: o)
  show "opened_at (fold on_failure ts cb) = Some (last ts)" by (simp add: o)
  show "\<forall>k<length ts. state (fold on_failure (take k ts) cb) = ''closed''"
  proof (intro allI impI)
    fix k assume "k < length ts"
    then have "fold on_failure (take k ts) cb = cb\<lparr>failure_count := failure_count cb + int (length (take k ts))\<rparr>"
      using assms by (intro fold_on_failure_closed) auto
    then show "state (fold on_failure (take k ts) cb) = ''closed''" using assms by simp
  qed
qed

lemma allow_open_early:
  "state cb = ''open'' \<Longrightarrow> opened_at cb = Some t0 \<Longrightarrow> now - t0 < cooldown_seconds cb \<Longrightarrow>
   allow_request now cb = (False, cb)"
  by (simp add: allow_request.simps)

lemma allow_open_cooled:
  "state cb = ''open'' \<Longrightarrow> opened_at cb = Some t0 \<Longrightarrow> cooldown_seconds cb \<le> now - t0 \<Longrightarrow>
   allow_request now cb = (True, cb\<lparr>state := ''half_open'', half_open_probe_in_flight := True\<rparr>)"
  by (subst allow_request.simps)
     (simp add: allow_request.simps [of now "cb\<lparr>state := ''half_open'', half_open_probe_in_flight := False\<rparr>"])

lemma allow_probe_in_flight:
  "state cb = ''half_open'' \<Longrightarrow> half_open_probe_in_flight cb \<Longrightarrow> allow_request now cb = (False, cb)"
  by (simp add: allow_request.simps)

text \<open>
  Claim C3. A closed breaker with no failure counted is open after
  \<open>failure_threshold\<close> failures in a row (and closed until the last of them), with
  \<open>opened_at\<close> the time of the last one. An open breaker refuses until
  \<open>cooldown_seconds\<close> have passed since \<open>opened_at\<close>; the first \<^verbatim>\<open>allow_request\<close>
  after that is granted, leaves the breaker half open, and every later one is refused
  and changes nothing. \<^verbatim>\<open>on_success\<close> closes the breaker from any state, with the
  count 0 and the probe flag cleared; \<^verbatim>\<open>on_failure\<close> of a half-open breaker opens it
  with \<open>opened_at\<close> the time of the call.
\<close>

theorem circuit_breaker_lifecycle:
  "(state cb = ''closed'' \<and> failure_count cb = 0 \<and> 1 \<le> failure_threshold cb \<and>
      int (length ts) = failure_threshold cb \<longrightarrow>
        state (fold on_failure ts cb) = ''open'' \<and>
        opened_at (fold on_failure ts cb) = Some (last ts) \<and>
        (\<forall>k<length ts. state (fold on_failure (take k ts) cb) = ''closed'')) \<and>
   (state cb = ''open'' \<and> opened_at cb = Some t0 \<and> now - t0 < cooldown_seconds cb \<longrightarrow>
        allow_request now cb = (False, cb)) \<and>
   (state cb = ''open'' \<and> opened_at cb = Some t0 \<and> cooldown_seconds cb \<le> now - t0 \<longrightarrow>
        fst (allow_request now cb) \<and>
        state (snd (allow_request now cb)) = ''half_open'' \<and>
        (\<forall>later. allow_request later (snd (allow_request now cb)) = (False, snd (allow_request now cb)))) \<and>
   state (on_success cb) = ''closed'' \<and> failure_count (on_success cb) = 0 \<and>
   \<not> half_open_probe_in_flight (on_success cb) \<and>
   (state cb = ''half_open'' \<longrightarrow>
        state (on_failure now cb) = ''open'' \<and> opened_at (on_failure now cb) = Some now)"
proof -
  have 1: "state (fold on_failure ts cb) = ''open'' \<and>
        opened_at (fold on_failure ts cb) = Some (last ts) \<and>
        (\<forall>k<length ts. state (fold on_failure (take k ts) cb) = ''closed'')"
    if "state cb = ''closed'' \<and> failure_count cb = 0 \<and> 1 \<le> failure_threshold cb \<and>
      int (length ts) = failure_threshold cb"
    using that threshold_failures_open [of cb ts] by blast
  have 2: "allow_request now cb = (False, cb)"
    if "state cb = ''open'' \<and> opened_at cb = Some t0 \<and> now - t0 < cooldown_seconds cb"
    using that allow_open_early by blast
  have 3: "fst (allow_request now cb) \<and>
        state (snd (allow_request now cb)) = ''half_open'' \<and>
        (\<forall>later. allow_request later (snd (allow_request now cb)) = (False, snd (allow_request now cb)))"
    if h: "state cb = ''open'' \<and> opened_at cb = Some t0 \<and> cooldown_seconds cb \<le> now - t0"
  proof -
    have e: "allow_request now cb = (True, cb\<lparr>state := ''half_open'', half_open_probe_in_flight := True\<rparr>)"
      using h allow_open_cooled by blast
    show ?thesis unfolding e by (simp add: allow_probe_in_flight)
  qed
  have 4: "state (on_success cb) = ''closed'' \<and> failure_count (on_success cb) = 0 \<and>
   \<not> half_open_probe_in_flight (on_success cb)"
    by (simp add: on_success_def)
  have 5: "state (on_failure now cb) = ''open'' \<and> opened_at (on_failure now cb) = Some now"
    if "state cb = ''half_open''"
    using that by (simp add: on_failure_def)
  from 1 2 3 4 5 show ?thesis by blast
qed

theorem circuit_breaker_lifecycle_witness:
  "state (fold on_failure [1, 2, 3] (new_CircuitBreaker 3 60)) = ''open'' \<and>
   opened_at (fold on_failure [1, 2, 3] (new_CircuitBreaker 3 60)) = Some 3 \<and>
   allow_request 20 (fold on_failure [1, 2, 3] (new_CircuitBreaker 3 60))
     = (False, fold on_failure [1, 2, 3] (new_CircuitBreaker 3 60)) \<and>
   fst (allow_request 63 (fold on_failure [1, 2, 3] (new_CircuitBreaker 3 60))) \<and>
   allow_request 64 (snd (allow_request 63 (fold on_failure [1, 2, 3] (new_CircuitBreaker 3 60))))
     = (False, snd (allow_request 63 (fold on_failure [1, 2, 3] (new_CircuitBreaker 3 60)))) \<and>
   state (on_failure 65 (snd (allow_request 63 (fold on_failure [1, 2, 3] (new_CircuitBreaker 3 60))))) = ''open'' \<and>
   opened_at (on_failure 65 (snd (allow_request 63 (fold on_failure [1, 2, 3] (new_CircuitBreaker 3 60))))) = Some 65"
proof -
  let ?fresh = "new_CircuitBreaker 3 60"
  let ?tripped = "fold on_failure [1, 2, 3] ?fresh"
  have a: "state ?tripped = ''open'' \<and> opened_at ?tripped = Some 3"
    using circuit_breaker_lifecycle [where cb = ?fresh and ts = "[1, 2, 3]", THEN conjunct1]
    by (simp add: new_CircuitBreaker_def)
  have c: "cooldown_seconds ?tripped = 60"
    by (simp add: new_CircuitBreaker_def on_failure_def)
  have b: "allow_request 20 ?tripped = (False, ?tripped)"
    using circuit_breaker_lifecycle [where cb = ?tripped and ?t0.0 = 3 and now = 20,
        THEN conjunct2, THEN conjunct1] a c
    by simp
  have d: "fst (allow_request 63 ?tripped) \<and> state (snd (allow_request 63 ?tripped)) = ''half_open'' \<and>
     (\<forall>later. allow_request later (snd (allow_request 63 ?tripped)) = (False, snd (allow_request 63 ?tripped)))"
    using circuit_breaker_lifecycle [where cb = ?tripped and ?t0.0 = 3 and now = 63,
        THEN conjunct2, THEN conjunct2, THEN conjunct1] a c
    by simp
  have e: "state (on_failure 65 (snd (allow_request 63 ?tripped))) = ''open'' \<and>
     opened_at (on_failure 65 (snd (allow_request 63 ?tripped))) = Some 65"
    using circuit_breaker_lifecycle [where cb = "snd (allow_request 63 ?tripped)" and now = 65,
        THEN conjunct2, THEN conjunct2, THEN conjunct2, THEN conjunct2, THEN conjunct2, THEN conjunct2] d
    by simp
  from a b d e show ?thesis by simp
qed

section \<open>Properties of the rate limiter\<close>

lemma try_consume_cases:
  "try_consume now amount b =
     (let r = (if now - last_refill b > 0
               then min (capacity b) (tokens b + (now - last_refill b) * refill_rate b)
               else tokens b);
          l = (if now - last_refill b > 0 then now else last_refill b)
      in (amount \<le> r, b\<lparr>tokens := (if amount \<le> r then r - amount else r), last_refill := l\<rparr>))"
  by (simp add: try_consume_def Let_def)

lemma try_consume_no_refill:
  "now \<le> last_refill b \<Longrightarrow>
   try_consume now 1 b = (1 \<le> tokens b, b\<lparr>tokens := (if 1 \<le> tokens b then tokens b - 1 else tokens b)\<rparr>)"
  by (simp add: try_consume_def Let_def)

lemma allow_burst_Suc:
  "fst (allow_burst (Suc n) rl key now) =
     fst (allow rl key 1 now now) # fst (allow_burst n (snd (allow rl key 1 now now)) key now)"
  by (simp add: split_def Let_def)

lemma allow_burst_no_refill:
  "buckets rl key = Some b \<Longrightarrow> now \<le> last_refill b \<Longrightarrow> tokens b \<le> c \<Longrightarrow> 0 \<le> c \<Longrightarrow>
   real (length (filter (\<lambda>ok. ok) (fst (allow_burst n rl key now)))) \<le> c"
proof (induction n arbitrary: rl b c)
  case 0
  then show ?case by simp
next
  case (Suc n)
  let ?b' = "b\<lparr>tokens := (if 1 \<le> tokens b then tokens b - 1 else tokens b)\<rparr>"
  let ?rl' = "rl\<lparr>buckets := (buckets rl)(key \<mapsto> ?b')\<rparr>"
  have al: "allow rl key 1 now now = (1 \<le> tokens b, ?rl')"
    using Suc.prems by (simp add: allow_def bucket_for_def try_consume_no_refill)
  have bk: "buckets ?rl' key = Some ?b'" "now \<le> last_refill ?b'"
    using Suc.prems by simp_all
  show ?case
  proof (cases "1 \<le> tokens b")
    case True
    have "tokens ?b' \<le> c - 1" "0 \<le> c - 1" using True Suc.prems by simp_all
    from Suc.IH [OF bk this]
    have "real (length (filter (\<lambda>ok. ok) (fst (allow_burst n ?rl' key now)))) \<le> c - 1" .
    then show ?thesis using True by (simp only: allow_burst_Suc al fst_conv snd_conv) simp
  next
    case False
    have "tokens ?b' \<le> c" "0 \<le> c" using False Suc.prems by simp_all
    from Suc.IH [OF bk this]
    have "real (length (filter (\<lambda>ok. ok) (fst (allow_burst n ?rl' key now)))) \<le> c" .
    then show ?thesis using False by (simp only: allow_burst_Suc al fst_conv snd_conv) simp
  qed
qed

lemma try_consume_after:
  assumes "try_consume now 1 b = (ok, b')" "tokens b \<le> capacity b"
  shows "now \<le> last_refill b'" and "ok \<Longrightarrow> tokens b' \<le> capacity b - 1"
    and "\<not> ok \<Longrightarrow> tokens b' \<le> capacity b" and "ok \<Longrightarrow> 1 \<le> capacity b"
  using assms by (auto simp: try_consume_def Let_def split: if_splits)

lemma allow_burst_bound:
  assumes t: "tokens (bucket_for rl key now) \<le> capacity (bucket_for rl key now)"
    and c: "0 \<le> capacity (bucket_for rl key now)"
  shows "real (length (filter (\<lambda>ok. ok) (fst (allow_burst n rl key now))))
           \<le> capacity (bucket_for rl key now)"
proof (cases n)
  case 0
  then show ?thesis using c by simp
next
  case (Suc m)
  define b where "b = bucket_for rl key now"
  obtain ok b' where tc: "try_consume now 1 b = (ok, b')" by (cases "try_consume now 1 b")
  define rl' where "rl' = rl\<lparr>buckets := (buckets rl)(key \<mapsto> b')\<rparr>"
  have al: "allow rl key 1 now now = (ok, rl')"
    by (simp add: allow_def tc b_def [symmetric] rl'_def)
  have bk: "buckets rl' key = Some b'" by (simp add: rl'_def)
  have tb: "tokens b \<le> capacity b" using t by (simp add: b_def)
  have st: "fst (allow_burst n rl key now) = ok # fst (allow_burst m rl' key now)"
    by (simp only: Suc allow_burst_Suc al fst_conv snd_conv)
  show ?thesis
  proof (cases ok)
    case True
    have "tokens b' \<le> capacity b - 1" "0 \<le> capacity b - 1"
      using try_consume_after [OF tc tb] True by simp_all
    from allow_burst_no_refill [OF bk try_consume_after(1) [OF tc tb] this]
    have "real (length (filter (\<lambda>ok. ok) (fst (allow_burst m rl' key now)))) \<le> capacity b - 1" .
    then show ?thesis unfolding st b_def [symmetric] using True by simp
  next
    case False
    have "tokens b' \<le> capacity b" "0 \<le> capacity b"
      using try_consume_after [OF tc tb] False c by (simp_all add: b_def)
    from allow_burst_no_refill [OF bk try_consume_after(1) [OF tc tb] this]
    have "real (length (filter (\<lambda>ok. ok) (fst (allow_burst m rl' key now)))) \<le> capacity b" .
    then show ?thesis unfolding st b_def [symmetric] using False by simp
  qed
qed

text \<open>
  Claim C8, as the code has it. \<^verbatim>\<open>allow(key, amount)\<close> refills the bucket of the key
  to \<open>min(capacity, tokens + elapsed * refill_rate)\<close> and moves \<open>last_refill\<close> only
  when the clock has passed \<open>last_refill\<close>; otherwise tokens and \<open>last_refill\<close> stay.
  It then returns true and takes \<open>amount\<close> tokens exactly when the tokens it found are
  at least \<open>amount\<close>, and returns false and takes nothing otherwise. The bucket of a
  key not seen before starts full, and of any burst of calls with amount 1 at one
  instant at most \<open>capacity\<close> return true (for a bucket that holds no more than its
  capacity).
\<close>

theorem allow_refill_guard:
  "fst (allow rl key amount created now) =
     (amount \<le> (if 0 < now - last_refill (bucket_for rl key created)
                 then min (capacity (bucket_for rl key created))
                        (tokens (bucket_for rl key created)
                         + (now - last_refill (bucket_for rl key created)) * refill_rate (bucket_for rl key created))
                 else tokens (bucket_for rl key created))) \<and>
   buckets (snd (allow rl key amount created now)) key =
     Some ((bucket_for rl key created)
       \<lparr>tokens :=
          (let r = (if 0 < now - last_refill (bucket_for rl key created)
                    then min (capacity (bucket_for rl key created))
                           (tokens (bucket_for rl key created)
                            + (now - last_refill (bucket_for rl key created)) * refill_rate (bucket_for rl key created))
                    else tokens (bucket_for rl key created))
           in if amount \<le> r then r - amount else r),
        last_refill :=
          (if 0 < now - last_refill (bucket_for rl key created) then now
           else last_refill (bucket_for rl key created))\<rparr>) \<and>
   (buckets rl key = None \<longrightarrow>
      tokens (bucket_for rl key created) = rl_capacity rl \<and>
      capacity (bucket_for rl key created) = rl_capacity rl) \<and>
   (tokens (bucket_for rl key now) \<le> capacity (bucket_for rl key now) \<and>
    0 \<le> capacity (bucket_for rl key now) \<longrightarrow>
      real (length (filter (\<lambda>ok. ok) (fst (allow_burst n rl key now))))
        \<le> capacity (bucket_for rl key now))"
proof -
  have 1: "fst (allow rl key amount created now) =
     (amount \<le> (if 0 < now - last_refill (bucket_for rl key created)
                 then min (capacity (bucket_for rl key created))
                        (tokens (bucket_for rl key created)
                         + (now - last_refill (bucket_for rl key created)) * refill_rate (bucket_for rl key created))
                 else tokens (bucket_for rl key created)))"
    by (simp add: allow_def try_consume_cases Let_def)
  have 2: "buckets (snd (allow rl key amount created now)) key =
     Some ((bucket_for rl key created)
       \<lparr>tokens :=
          (let r = (if 0 < now - last_refill (bucket_for rl key created)
                    then min (capacity (bucket_for rl key created))
                           (tokens (bucket_for rl key created)
                            + (now - last_refill (bucket_for rl key created)) * refill_rate (bucket_for rl key created))
                    else tokens (bucket_for rl key created))
           in if amount \<le> r then r - amount else r),
        last_refill :=
          (if 0 < now - last_refill (bucket_for rl key created) then now
           else last_refill (bucket_for rl key created))\<rparr>)"
    by (simp add: allow_def try_consume_cases Let_def)
  have 3: "tokens (bucket_for rl key created) = rl_capacity rl \<and>
      capacity (bucket_for rl key created) = rl_capacity rl" if "buckets rl key = None"
    using that by (simp add: bucket_for_def)
  from 1 2 3 allow_burst_bound [of rl key now n] show ?thesis by blast
qed

theorem allow_refill_guard_witness:
  "fst (allow example_limiter ''recipient:a'' 1 103 103) \<and>
   buckets (snd (allow example_limiter ''recipient:a'' 1 103 103)) ''recipient:a''
     = Some \<lparr>capacity = 10, refill_rate = 1, tokens = 7, last_refill = 103\<rparr> \<and>
   tokens (bucket_for (new_RateLimiter 2 1) ''recipient:b'' 50) = 2 \<and>
   real (length (filter (\<lambda>ok. ok) (fst (allow_burst 5 (new_RateLimiter 2 1) ''recipient:b'' 50)))) \<le> 2"
proof -
  have b: "bucket_for example_limiter ''recipient:a'' 103
             = \<lparr>capacity = 10, refill_rate = 1, tokens = 5, last_refill = 100\<rparr>"
    by (simp add: bucket_for_def example_limiter_def)
  have n: "buckets (new_RateLimiter 2 1) ''recipient:b'' = None"
    by (simp add: new_RateLimiter_def)
  have c: "bucket_for (new_RateLimiter 2 1) ''recipient:b'' 50
             = \<lparr>capacity = 2, refill_rate = 1, tokens = 2, last_refill = 50\<rparr>"
    by (simp add: bucket_for_def new_RateLimiter_def)
  have 1: "fst (allow example_limiter ''recipient:a'' 1 103 103) \<and>
   buckets (snd (allow example_limiter ''recipient:a'' 1 103 103)) ''recipient:a''
     = Some \<lparr>capacity = 10, refill_rate = 1, tokens = 7, last_refill = 103\<rparr>"
    using allow_refill_guard [of example_limiter "''recipient:a''" 1 103 103] by (simp add: b)
  have 2: "tokens (bucket_for (new_RateLimiter 2 1) ''recipient:b'' 50) = 2 \<and>
   real (length (filter (\<lambda>ok. ok) (fst (allow_burst 5 (new_RateLimiter 2 1) ''recipient:b'' 50)))) \<le> 2"
    using allow_refill_guard [of "new_RateLimiter 2 1" "''recipient:b''" 1 50 50 5] n
    by (simp add: c del: allow_burst.simps)
  from 1 2 show ?thesis by blast
qed

text \<open>
  The unconditional refill that the specification words differs from the code when
  the clock reads less than \<open>last_refill\<close>: the bucket of the example holds 5 tokens,
  refilled at 100; at clock 90 the code grants the request and leaves the bucket with
  4 tokens, while the worded refill would leave \<open>5 + (90 - 100) * 1 = -5\<close> tokens and
  refuse.
\<close>

theorem allow_spec_refill_counterexample:
  "fst (allow example_limiter ''recipient:a'' 1 90 90) \<and>
   \<not> fst (spec_allow example_limiter ''recipient:a'' 1 90 90)"
  by (simp add: allow_def spec_allow_def try_consume_def spec_try_consume_def bucket_for_def
      example_limiter_def Let_def)

section \<open>Properties of the priority queue\<close>

lemma least_le: "x \<in> set (m # es) \<Longrightarrow> least m es \<le> x"
proof (induction es arbitrary: m x)
  case Nil
  then show ?case by simp
next
  case (Cons e es)
  have a: "least (if e < m then e else m) es \<le> (if e < m then e else m)"
    using Cons.IH [of "if e < m then e else m" "if e < m then e else m"] by simp
  show ?case
  proof (cases "x \<in> set es")
    case True
    then show ?thesis using Cons.IH [of x "if e < m then e else m"] by simp
  next
    case False
    then have "x = m \<or> x = e" using Cons.prems by auto
    then show ?thesis using a by (auto split: if_splits)
  qed
qed

lemma queue_get_Some:
  "queue_get q = Some (e, q') \<Longrightarrow> e \<in> set q \<and> q' = remove1 e q \<and> (\<forall>x\<in>set q. e \<le> x)"
proof (cases q)
  case Nil
  assume "queue_get q = Some (e, q')"
  with Nil show ?thesis by (simp add: queue_get_def)
next
  case (Cons a as)
  assume h: "queue_get q = Some (e, q')"
  have e: "e = least a as" and q': "q' = remove1 (least a as) q"
    using h Cons by (auto simp: queue_get_def)
  have "e \<in> set q" using least_in [of a as] Cons e by simp
  moreover have "\<forall>x\<in>set q. e \<le> x" using least_le [of _ a as] Cons e by simp
  ultimately show ?thesis using e q' by simp
qed

lemma queue_get_None: "queue_get q = None \<longleftrightarrow> q = []"
  by (cases q) (simp_all add: queue_get_def)

lemma mset_drain: "mset (drain q) = mset q"
proof (induction q rule: drain.induct)
  case (1 q)
  show ?case
  proof (cases "queue_get q")
    case None
    then have "q = []" by (simp add: queue_get_None)
    then show ?thesis by (subst drain.simps) (simp add: queue_get_def)
  next
    case (Some p)
    obtain e q' where p: "p = (e, q')" by (cases p)
    have g: "e \<in> set q" "q' = remove1 e q" using queue_get_Some Some p by auto
    have "mset (drain q') = mset q'" using "1.IH" Some p by simp
    then show ?thesis using Some p g by (subst drain.simps) simp
  qed
qed

lemma sorted_drain: "sorted (drain q)"
proof (induction q rule: drain.induct)
  case (1 q)
  show ?case
  proof (cases "queue_get q")
    case None
    then show ?thesis by (subst drain.simps) simp
  next
    case (Some p)
    obtain e q' where p: "p = (e, q')" by (cases p)
    have g: "q' = remove1 e q" "\<forall>x\<in>set q. e \<le> x" using queue_get_Some Some p by auto
    have s: "sorted (drain q')" using "1.IH" Some p by simp
    have "set (drain q') = set q'" using mset_drain [of q'] by (metis set_mset_mset)
    then have "\<forall>x\<in>set (drain q'). e \<le> x" using g notin_set_remove1 by (metis)
    then show ?thesis using Some p s by (subst drain.simps) simp
  qed
qed

lemma entry_le_rank_seq:
  "(a::entry) \<le> b \<Longrightarrow> fst a < fst b \<or> (fst a = fst b \<and> fst (snd a) \<le> fst (snd b))"
  by (cases a, cases b) (auto simp: less_eq_prod_def less_prod_def)

lemma drain_order:
  "sorted_wrt (\<lambda>a b. fst a < fst b \<or> (fst a = fst b \<and> fst (snd a) \<le> fst (snd b))) (drain q)"
  by (rule sorted_wrt_mono_rel [OF _ sorted_drain]) (rule entry_le_rank_seq)

section \<open>Properties of the workers\<close>

subsection \<open>Building blocks\<close>

lemma rda_frame [simp]:
  "delivery_attempts (record_delivery_attempt i u tid k st lat err code s) =
     delivery_attempts s @
       [\<lparr>a_id = i, a_tracking_id = tid, a_attempt_number = k, a_status = st, a_error_message = err,
         a_response_code = code, a_attempted_at = u, a_latency_ms = lat\<rparr>]"
  "ready_queue (record_delivery_attempt i u tid k st lat err code s) = ready_queue s"
  "timers (record_delivery_attempt i u tid k st lat err code s) = timers s"
  "seq_counter (record_delivery_attempt i u tid k st lat err code s) = seq_counter s"
  "circuit_breakers (record_delivery_attempt i u tid k st lat err code s) = circuit_breakers s"
  "rate_limiter (record_delivery_attempt i u tid k st lat err code s) = rate_limiter s"
  "cb_cooldown (record_delivery_attempt i u tid k st lat err code s) = cb_cooldown s"
  by (simp_all add: record_delivery_attempt_def Let_def split: option.split)

lemma rda_other [simp]:
  "t \<noteq> tid \<Longrightarrow> notifications (record_delivery_attempt i u tid k st lat err code s) t = notifications s t"
  by (simp add: record_delivery_attempt_def Let_def split: option.split)

lemma rda_missing:
  "notifications s tid = None \<Longrightarrow>
   notifications (record_delivery_attempt i u tid k st lat err code s) = notifications s"
  by (simp add: record_delivery_attempt_def Let_def)

lemma rda_row:
  "notifications s tid = Some n \<Longrightarrow>
   notifications (record_delivery_attempt i u tid k st lat err code s) tid =
     Some (n\<lparr>attempts := max (attempts n) k,
             last_attempt_at := Some u,
             status := (if st = ''delivered'' \<or> st = ''failed'' \<or> st = ''bounced'' then st else status n),
             delivered_at := (if st = ''delivered'' then Some u else delivered_at n),
             failure_reason := (if st = ''delivered'' then None
                                else if st = ''failed'' \<or> st = ''bounced'' then err
                                else failure_reason n)\<rparr>)"
  by (simp add: record_delivery_attempt_def Let_def)

lemma enqueue_ready_frame [simp]:
  "ready_queue (enqueue_ready tid prio s) = ready_queue s @ [(priority_value prio, seq_counter s + 1, tid)]"
  "seq_counter (enqueue_ready tid prio s) = seq_counter s + 1"
  "notifications (enqueue_ready tid prio s) = notifications s"
  "delivery_attempts (enqueue_ready tid prio s) = delivery_attempts s"
  "timers (enqueue_ready tid prio s) = timers s"
  "circuit_breakers (enqueue_ready tid prio s) = circuit_breakers s"
  "rate_limiter (enqueue_ready tid prio s) = rate_limiter s"
  "cb_cooldown (enqueue_ready tid prio s) = cb_cooldown s"
  by (simp_all add: enqueue_ready_def put_nowait_def Let_def)

lemma schedule_retry_frame [simp]:
  "timers (schedule_retry rd tid prio k plan s) =
     (if k < max_attempts plan
      then timers s @ [(next_delay plan (k + 1) (jitter_draw rd), tid, prio)] else timers s)"
  "ready_queue (schedule_retry rd tid prio k plan s) = ready_queue s"
  "seq_counter (schedule_retry rd tid prio k plan s) = seq_counter s"
  "notifications (schedule_retry rd tid prio k plan s) = notifications s"
  "delivery_attempts (schedule_retry rd tid prio k plan s) = delivery_attempts s"
  "circuit_breakers (schedule_retry rd tid prio k plan s) = circuit_breakers s"
  "rate_limiter (schedule_retry rd tid prio k plan s) = rate_limiter s"
  "cb_cooldown (schedule_retry rd tid prio k plan s) = cb_cooldown s"
  by (simp_all add: schedule_retry_def)

lemma check_breaker_frame:
  "check_breaker rd rcpt s = (allowed, cb, s1) \<Longrightarrow>
   s1 = s\<lparr>circuit_breakers := (circuit_breakers s)(rcpt \<mapsto> cb)\<rparr> \<and>
   (allowed, cb) = allow_request (clock_allow rd) (get_or_create_cb s rcpt)"
  by (auto simp: check_breaker_def Let_def split: prod.splits)

lemma check_rate_limit_frame:
  "check_rate_limit rd rcpt s = (ok, s2) \<Longrightarrow>
   \<exists>rl. s2 = s\<lparr>rate_limiter := rl\<rparr>"
  by (auto simp: check_rate_limit_def Let_def split: option.splits prod.splits
      intro: exI [of _ "rate_limiter s"])



lemma new_request_bad_priority:
  "r_priority raw \<notin> set Priority \<Longrightarrow> new_NotificationRequest raw = Inl ValidationError"
  by (simp add: new_NotificationRequest_def)

lemma reconstruct_bad_priority:
  "priority notif \<notin> set Priority \<Longrightarrow> reconstruct_request_from_notif notif = Inl ValidationError"
  by (simp add: reconstruct_request_from_notif_def Let_def new_request_bad_priority)

subsection \<open>The branches of processing\<close>

lemma process_missing:
  "notifications s tid = None \<Longrightarrow> process_tracking_id rd tid s = Inr s"
  by (simp add: process_tracking_id_def)

lemma process_invalid:
  "notifications s tid = Some notif \<Longrightarrow> reconstruct_request_from_notif notif = Inl e \<Longrightarrow>
   process_tracking_id rd tid s = Inl e"
  by (simp add: process_tracking_id_def)

lemma process_circuit_open:
  assumes "notifications s tid = Some notif" "reconstruct_request_from_notif notif = Inr req"
    and "check_breaker rd (r_recipient req) s = (False, cb, s1)"
  shows "process_tracking_id rd tid s =
     Inr (record_delivery_attempt (attempt_id rd) (utc_now rd) tid (attempts notif + 1)
            ''failed'' 0 (Some ''circuit_open'') None s1)"
  using assms by (simp add: process_tracking_id_def Let_def)

lemma process_rate_limited:
  assumes "notifications s tid = Some notif" "reconstruct_request_from_notif notif = Inr req"
    and "check_breaker rd (r_recipient req) s = (True, cb, s1)"
    and "check_rate_limit rd (r_recipient req) s1 = (False, s2)"
  shows "process_tracking_id rd tid s = Inr (enqueue_ready tid (r_priority req) s2)"
  using assms by (simp add: process_tracking_id_def Let_def)

lemma process_dispatched:
  assumes "notifications s tid = Some notif" "reconstruct_request_from_notif notif = Inr req"
    and "check_breaker rd (r_recipient req) s = (True, cb, s1)"
    and "check_rate_limit rd (r_recipient req) s1 = (True, s2)"
  shows "process_tracking_id rd tid s =
           Inr (attempt_send rd tid notif req (get_retry_plan (r_priority req)) cb s2)"
  using assms by (simp add: process_tracking_id_def Let_def)


subsection \<open>The attempt\<close>

lemma attempt_send_frame [simp]:
  "delivery_attempts (attempt_send rd tid notif req plan cb s) =
     delivery_attempts s @
       [\<lparr>a_id = attempt_id rd, a_tracking_id = tid, a_attempt_number = attempts notif + 1,
         a_status = outcome_status (dispatch rd), a_error_message = outcome_message (dispatch rd),
         a_response_code = None, a_attempted_at = utc_now rd, a_latency_ms = perf_latency_ms rd\<rparr>]"
  "ready_queue (attempt_send rd tid notif req plan cb s) = ready_queue s"
  "seq_counter (attempt_send rd tid notif req plan cb s) = seq_counter s"
  "rate_limiter (attempt_send rd tid notif req plan cb s) = rate_limiter s"
  "cb_cooldown (attempt_send rd tid notif req plan cb s) = cb_cooldown s"
  "timers (attempt_send rd tid notif req plan cb s) =
     (if retryable (dispatch rd) \<and> attempts notif + 1 < max_attempts plan
      then timers s @ [(next_delay plan (attempts notif + 2) (jitter_draw rd), tid, r_priority req)]
      else timers s)"
  "circuit_breakers (attempt_send rd tid notif req plan cb s) =
     (circuit_breakers s)(r_recipient req \<mapsto>
        (if outcome_status (dispatch rd) = ''delivered'' then on_success cb
         else on_failure (clock_outcome rd) cb))"
  by (cases "dispatch rd"; simp add: attempt_send_def Let_def add.assoc)+

lemma attempt_send_other [simp]:
  "t \<noteq> tid \<Longrightarrow> notifications (attempt_send rd tid notif req plan cb s) t = notifications s t"
  by (cases "dispatch rd"; simp add: attempt_send_def Let_def)

lemma attempt_send_row:
  "notifications (attempt_send rd tid notif req plan cb s) tid =
     Some (notif\<lparr>attempts := attempts notif + 1,
             last_attempt_at := Some (utc_now rd),
             status := outcome_status (dispatch rd),
             delivered_at := (if outcome_status (dispatch rd) = ''delivered'' then Some (utc_now rd)
                              else delivered_at notif),
             failure_reason := outcome_message (dispatch rd)\<rparr>)"
  by (cases "dispatch rd"; simp add: attempt_send_def Let_def rda_row)

subsection \<open>An open breaker\<close>

text \<open>
  Claim C7. When the breaker of the recipient refuses the request of a stored
  notification that a worker has taken, the worker appends one attempt row with status
  failed, error message \<^verbatim>\<open>circuit_open\<close> and latency 0, and stops: the queue, the
  pending retry timers and the sequence counter are as before (nothing is enqueued
  again and no retry is set), the rate limiter is not consulted, and the result does
  not depend on what the adapter would have done (it is not called).
\<close>

theorem circuit_open_fast_fail:
  assumes "notifications s tid = Some notif"
    and "reconstruct_request_from_notif notif = Inr req"
    and "\<not> fst (check_breaker rd (r_recipient req) s)"
  shows "\<exists>s'. process_tracking_id rd tid s = Inr s' \<and>
     delivery_attempts s' = delivery_attempts s @
       [\<lparr>a_id = attempt_id rd, a_tracking_id = tid, a_attempt_number = attempts notif + 1,
         a_status = ''failed'', a_error_message = Some ''circuit_open'', a_response_code = None,
         a_attempted_at = utc_now rd, a_latency_ms = 0\<rparr>] \<and>
     ready_queue s' = ready_queue s \<and> timers s' = timers s \<and> seq_counter s' = seq_counter s \<and>
     rate_limiter s' = rate_limiter s \<and>
     circuit_breakers s' (r_recipient req)
       = Some (snd (allow_request (clock_allow rd) (get_or_create_cb s (r_recipient req)))) \<and>
     (\<forall>out. process_tracking_id (rd\<lparr>dispatch := out\<rparr>) tid s = process_tracking_id rd tid s)"
proof -
  obtain al cb s1 where cb: "check_breaker rd (r_recipient req) s = (al, cb, s1)"
    by (cases "check_breaker rd (r_recipient req) s")
  with assms(3) have al: "al = False" by simp
  have s1: "s1 = s\<lparr>circuit_breakers := (circuit_breakers s)(r_recipient req \<mapsto> cb)\<rparr>"
    and c: "cb = snd (allow_request (clock_allow rd) (get_or_create_cb s (r_recipient req)))"
    using check_breaker_frame [OF cb] by (simp, metis snd_conv)
  define s' where "s' = record_delivery_attempt (attempt_id rd) (utc_now rd) tid (attempts notif + 1)
            ''failed'' 0 (Some ''circuit_open'') None s1"
  have p: "process_tracking_id rd tid s = Inr s'"
    using process_circuit_open [OF assms(1,2)] cb al by (simp add: s'_def)
  have cb': "check_breaker (rd\<lparr>dispatch := out\<rparr>) (r_recipient req) s = (False, cb, s1)" for out
    using cb al by (simp add: check_breaker_def)
  have p': "\<forall>out. process_tracking_id (rd\<lparr>dispatch := out\<rparr>) tid s = process_tracking_id rd tid s"
    using process_circuit_open [OF assms(1,2) cb'] p by (simp add: s'_def)
  have 1: "delivery_attempts s' = delivery_attempts s @
       [\<lparr>a_id = attempt_id rd, a_tracking_id = tid, a_attempt_number = attempts notif + 1,
         a_status = ''failed'', a_error_message = Some ''circuit_open'', a_response_code = None,
         a_attempted_at = utc_now rd, a_latency_ms = 0\<rparr>]"
    by (simp add: s'_def s1)
  have 2: "ready_queue s' = ready_queue s \<and> timers s' = timers s \<and> seq_counter s' = seq_counter s \<and>
     rate_limiter s' = rate_limiter s"
    by (simp add: s'_def s1)
  have 3: "circuit_breakers s' (r_recipient req)
       = Some (snd (allow_request (clock_allow rd) (get_or_create_cb s (r_recipient req))))"
    using c by (simp add: s'_def s1)
  from p p' 1 2 3 show ?thesis by blast
qed

lemma example_reconstruct:
  "prio \<in> set Priority \<Longrightarrow>
   reconstruct_request_from_notif (example_notification tid ''sms'' ''+15551234567'' prio)
     = Inr (example_request ''sms'' ''+15551234567'' prio)"
  by (simp add: reconstruct_request_from_notif_def example_notification_def example_request_def
      or_empty_def new_NotificationRequest_def Channel_def strip_def is_space_def Let_def)

lemma example_open_breaker:
  "fold on_failure [1, 2, 3] (new_CircuitBreaker 3 60) =
     \<lparr>failure_threshold = 3, cooldown_seconds = 60, state = ''open'', failure_count = 3,
      opened_at = Some 3, half_open_probe_in_flight = False\<rparr>"
  by (simp add: new_CircuitBreaker_def on_failure_def)

lemma example_open_refuses:
  "\<not> fst (check_breaker (example_readings 20 out) ''+15551234567'' example_open_pipeline)"
  unfolding example_open_pipeline_def example_open_breaker
  by (simp add: check_breaker_def example_readings_def example_pipeline_def
      get_or_create_cb_def allow_request.simps split_def)

theorem circuit_open_fast_fail_witness:
  "\<exists>s'. process_tracking_id (example_readings 20 (Returned JNull)) ''t1'' example_open_pipeline = Inr s' \<and>
     map a_error_message (delivery_attempts s') = [Some ''circuit_open''] \<and>
     map a_latency_ms (delivery_attempts s') = [0] \<and>
     ready_queue s' = ready_queue example_open_pipeline \<and> timers s' = []"
proof -
  have n: "notifications example_open_pipeline ''t1''
             = Some (example_notification ''t1'' ''sms'' ''+15551234567'' ''normal'')"
    by (simp add: example_open_pipeline_def example_pipeline_def)
  have r: "reconstruct_request_from_notif (example_notification ''t1'' ''sms'' ''+15551234567'' ''normal'')
             = Inr (example_request ''sms'' ''+15551234567'' ''normal'')"
    by (rule example_reconstruct) (simp add: Priority_def)
  have b: "\<not> fst (check_breaker (example_readings 20 (Returned JNull))
                     (r_recipient (example_request ''sms'' ''+15551234567'' ''normal'')) example_open_pipeline)"
    using example_open_refuses by (simp add: example_request_def)
  have e: "delivery_attempts example_open_pipeline = []" "timers example_open_pipeline = []"
    by (simp_all add: example_open_pipeline_def example_pipeline_def initial_def)
  from circuit_open_fast_fail [OF n r b] obtain s' where
    "process_tracking_id (example_readings 20 (Returned JNull)) ''t1'' example_open_pipeline = Inr s'"
    "delivery_attempts s' = delivery_attempts example_open_pipeline @
       [\<lparr>a_id = attempt_id (example_readings 20 (Returned JNull)), a_tracking_id = ''t1'',
         a_attempt_number = attempts (example_notification ''t1'' ''sms'' ''+15551234567'' ''normal'') + 1,
         a_status = ''failed'', a_error_message = Some ''circuit_open'', a_response_code = None,
         a_attempted_at = utc_now (example_readings 20 (Returned JNull)), a_latency_ms = 0\<rparr>]"
    "ready_queue s' = ready_queue example_open_pipeline" "timers s' = timers example_open_pipeline"
    by blast
  then show ?thesis using e by (intro exI [of _ s']) simp
qed

subsection \<open>Unknown priorities\<close>

text \<open>
  Claim C9, as the code has it. For a priority outside the four names
  \<^verbatim>\<open>get_retry_plan\<close> returns the plan of normal (2 attempts, delays 10 and 60) and the
  rank is 2, the rank of normal. The pipeline does not take such a priority that
  far: the field is a \<^verbatim>\<open>Literal\<close> of the four names, so building the request fails
  with a validation error at intake, and a stored row that carries such a priority
  fails the same way when the worker rebuilds its request.
\<close>

theorem unknown_priority_fallback:
  "p \<notin> set Priority \<longrightarrow>
     get_retry_plan p = get_retry_plan ''normal'' \<and>
     max_attempts (get_retry_plan p) = 2 \<and> delays (get_retry_plan p) = [10, 60] \<and>
     priority_value p = 2 \<and> priority_value ''normal'' = 2 \<and>
     new_NotificationRequest (raw\<lparr>r_priority := p\<rparr>) = Inl ValidationError \<and>
     (notifications s tid = Some notif \<and> priority notif = p \<longrightarrow>
        process_tracking_id rd tid s = Inl ValidationError)"
proof
  assume p: "p \<notin> set Priority"
  then have m: "map_of RETRY_CONFIGS p = None"
    by (auto simp: RETRY_CONFIGS_def Priority_def)
  have g: "get_retry_plan p = get_retry_plan ''normal''"
    by (simp add: get_retry_plan_def m) (simp add: RETRY_CONFIGS_def)
  have n: "max_attempts (get_retry_plan ''normal'') = 2" "delays (get_retry_plan ''normal'') = [10, 60]"
    by (simp_all add: get_retry_plan_def RETRY_CONFIGS_def)
  have v: "priority_value p = 2 \<and> priority_value ''normal'' = 2"
    using p by (auto simp: priority_value_def Priority_def)
  have q: "new_NotificationRequest (raw\<lparr>r_priority := p\<rparr>) = Inl ValidationError"
    using p by (simp add: new_request_bad_priority)
  have r: "process_tracking_id rd tid s = Inl ValidationError"
    if "notifications s tid = Some notif \<and> priority notif = p"
    using that p process_invalid [of s tid notif ValidationError rd] reconstruct_bad_priority [of notif]
    by simp
  from g n v q r
  show "get_retry_plan p = get_retry_plan ''normal'' \<and>
     max_attempts (get_retry_plan p) = 2 \<and> delays (get_retry_plan p) = [10, 60] \<and>
     priority_value p = 2 \<and> priority_value ''normal'' = 2 \<and>
     new_NotificationRequest (raw\<lparr>r_priority := p\<rparr>) = Inl ValidationError \<and>
     (notifications s tid = Some notif \<and> priority notif = p \<longrightarrow>
        process_tracking_id rd tid s = Inl ValidationError)"
    by simp
qed

theorem unknown_priority_fallback_witness:
  "get_retry_plan ''urgent'' = get_retry_plan ''normal'' \<and>
   max_attempts (get_retry_plan ''urgent'') = 2 \<and> delays (get_retry_plan ''urgent'') = [10, 60] \<and>
   priority_value ''urgent'' = 2 \<and>
   new_NotificationRequest (example_request ''sms'' ''+15551234567'' ''urgent'') = Inl ValidationError \<and>
   process_tracking_id (example_readings 20 (Returned JNull)) ''t1'' (example_pipeline ''urgent'')
     = Inl ValidationError"
proof -
  have p: "''urgent'' \<notin> set Priority" by (simp add: Priority_def)
  have n: "notifications (example_pipeline ''urgent'') ''t1''
             = Some (example_notification ''t1'' ''sms'' ''+15551234567'' ''urgent'') \<and>
           priority (example_notification ''t1'' ''sms'' ''+15551234567'' ''urgent'') = ''urgent''"
    by (simp add: example_pipeline_def example_notification_def)
  have e: "(example_request ''sms'' ''+15551234567'' ''urgent'')\<lparr>r_priority := ''urgent''\<rparr>
             = example_request ''sms'' ''+15551234567'' ''urgent''"
    by (simp add: example_request_def)
  from unknown_priority_fallback [of "''urgent''" "example_request ''sms'' ''+15551234567'' ''urgent''"
      "example_pipeline ''urgent''" "''t1''" "example_notification ''t1'' ''sms'' ''+15551234567'' ''urgent''"
      "example_readings 20 (Returned JNull)"] p n e
  show ?thesis by (simp only:) blast
qed

text \<open>
  A request of priority \<^verbatim>\<open>urgent\<close> is refused at intake, and a stored row of that
  priority is not processed as one of priority normal: the worker's call fails with a
  validation error and records nothing, where the same row with priority normal is
  delivered.
\<close>

theorem unknown_priority_processed_counterexample:
  "new_NotificationRequest (example_request ''sms'' ''+15551234567'' ''urgent'') = Inl ValidationError \<and>
   process_tracking_id (example_readings 20 (Returned JNull)) ''t1'' (example_pipeline ''urgent'')
     = Inl ValidationError \<and>
   (\<exists>s'. process_tracking_id (example_readings 20 (Returned JNull)) ''t1'' (example_pipeline ''normal'') = Inr s' \<and>
      map a_status (delivery_attempts s') = [''delivered''])"
proof -
  have u: "''urgent'' \<notin> set Priority" by (simp add: Priority_def)
  have 1: "process_tracking_id (example_readings 20 (Returned JNull)) ''t1'' (example_pipeline ''urgent'')
     = Inl ValidationError"
    by (rule process_invalid [of _ _ "example_notification ''t1'' ''sms'' ''+15551234567'' ''urgent''"])
       (simp_all add: example_pipeline_def reconstruct_bad_priority example_notification_def u)
  let ?rd = "example_readings 20 (Returned JNull)"
  let ?s = "example_pipeline ''normal''"
  have n: "notifications ?s ''t1'' = Some (example_notification ''t1'' ''sms'' ''+15551234567'' ''normal'')"
    by (simp add: example_pipeline_def)
  have r: "reconstruct_request_from_notif (example_notification ''t1'' ''sms'' ''+15551234567'' ''normal'')
             = Inr (example_request ''sms'' ''+15551234567'' ''normal'')"
    by (rule example_reconstruct) (simp add: Priority_def)
  obtain cb s1 where b: "check_breaker ?rd (r_recipient (example_request ''sms'' ''+15551234567'' ''normal'')) ?s = (True, cb, s1)"
    by (simp add: check_breaker_def example_pipeline_def initial_def get_or_create_cb_def
        new_CircuitBreaker_def allow_request.simps)
  have l: "check_rate_limit ?rd (r_recipient (example_request ''sms'' ''+15551234567'' ''normal'')) s1 = (True, s1)"
    using check_breaker_frame [OF b]
    by (simp add: check_rate_limit_def example_pipeline_def initial_def)
  have d: "delivery_attempts s1 = []"
    using check_breaker_frame [OF b] by (simp add: example_pipeline_def initial_def)
  have 0: "new_NotificationRequest (example_request ''sms'' ''+15551234567'' ''urgent'') = Inl ValidationError"
    by (rule new_request_bad_priority) (simp add: example_request_def u)
  show ?thesis
    using 0 1 process_dispatched [OF n r b l] d
    by (simp add: example_readings_def)
qed

subsection \<open>Retries\<close>


lemma delayed_requeue_fire:
  "i < length (timers s) \<Longrightarrow> timers s ! i = (d, t, p) \<Longrightarrow>
   delayed_requeue i s = enqueue_ready t p (s\<lparr>timers := take i (timers s) @ drop (Suc i) (timers s)\<rparr>)"
  by (simp add: delayed_requeue_def)


lemma get_or_create_cb_queue [simp]:
  "get_or_create_cb (s\<lparr>ready_queue := q\<rparr>) rcpt = get_or_create_cb s rcpt"
  by (simp add: get_or_create_cb_def split: option.split)





lemma retryable_failed: "retryable out \<Longrightarrow> outcome_status out = ''failed''"
  by (cases out) simp_all


lemma attempts_of_enqueue_ready [simp]:
  "attempts_of (enqueue_ready t p s) tid = attempts_of s tid"
  by (simp add: attempts_of_def)

lemma attempts_of_timers [simp]:
  "attempts_of (s\<lparr>timers := x\<rparr>) tid = attempts_of s tid"
  by (simp add: attempts_of_def)

lemma attempts_of_queue [simp]:
  "attempts_of (s\<lparr>ready_queue := x\<rparr>) tid = attempts_of s tid"
  by (simp add: attempts_of_def)




lemmas example_eval = example_pipeline_def example_readings_def example_notification_def
  example_request_def initial_def reaches_adapter_def reconstruct_request_from_notif_def or_empty_def
  new_NotificationRequest_def Channel_def Priority_def strip_def is_space_def check_breaker_def
  check_rate_limit_def get_or_create_cb_def new_CircuitBreaker_def allow_request.simps
  worker_step_def queue_get_def process_tracking_id_def attempt_send_def record_delivery_attempt_def
  schedule_retry_def delayed_requeue_def enqueue_ready_def put_nowait_def priority_value_def
  get_retry_plan_def RETRY_CONFIGS_def next_delay_def on_failure_def on_success_def attempts_of_def
  Let_def split_def




section \<open>Properties of the webhook adapter\<close>

text \<open>
  Claim C10. When the recipient is an http or https URL, so that the POST is made, a
  response whose status code is neither of 200 to 299 nor of 400 to 499 (a 3xx
  redirect among them) makes \<^verbatim>\<open>send\<close> raise \<^verbatim>\<open>TransientChannelError\<close>, with the
  code and the first 200 characters of the body in its message: an outcome that the
  worker retries under the retry plan.
\<close>

theorem webhook_other_status_transient:
  "startswith (map lower_char (r_recipient req)) ''http://''
     \<or> startswith (map lower_char (r_recipient req)) ''https://'' \<Longrightarrow>
   \<not> (200 \<le> code \<and> code < 300) \<Longrightarrow> \<not> (400 \<le> code \<and> code < 500) \<Longrightarrow>
   webhook_send req (Response code txt) latency_ms
     = TransientChannelError (''Webhook server error '' @ str_int code @ '': '' @ take 200 txt) \<and>
   retryable (webhook_send req (Response code txt) latency_ms)"
  by (auto simp: webhook_send_def)

theorem webhook_other_status_transient_witness:
  "webhook_send (example_request ''webhook'' ''https://example.org/hook'' ''normal'') (Response 302 ''Found'') 12
     = TransientChannelError (''Webhook server error '' @ str_int 302 @ '': '' @ take 200 ''Found'') \<and>
   retryable (webhook_send (example_request ''webhook'' ''https://example.org/hook'' ''normal'') (Response 302 ''Found'') 12) \<and>
   retryable (webhook_send (example_request ''webhook'' ''https://example.org/hook'' ''normal'') (Response 503 ''busy'') 12)"
proof -
  have u: "startswith (map lower_char (r_recipient (example_request ''webhook'' ''https://example.org/hook'' ''normal''))) ''http://''
     \<or> startswith (map lower_char (r_recipient (example_request ''webhook'' ''https://example.org/hook'' ''normal''))) ''https://''"
    by (simp add: example_request_def startswith_def lower_char_def)
  have a: "\<not> (200 \<le> (302::int) \<and> (302::int) < 300)" "\<not> (400 \<le> (302::int) \<and> (302::int) < 500)"
    "\<not> (200 \<le> (503::int) \<and> (503::int) < 300)" "\<not> (400 \<le> (503::int) \<and> (503::int) < 500)" by simp_all
  from webhook_other_status_transient [OF u a(1) a(2), of "''Found''" 12]
       webhook_other_status_transient [OF u a(3) a(4), of "''busy''" 12]
  show ?thesis by blast
qed

section \<open>Properties of the queue order\<close>

subsection \<open>The cases of processing\<close>

lemma process_cases:
  assumes "process_tracking_id rd tid s = Inr s'"
  shows "(notifications s tid = None \<and> s' = s) \<or>
    (\<exists>notif req cb s1. notifications s tid = Some notif \<and>
       reconstruct_request_from_notif notif = Inr req \<and>
       check_breaker rd (r_recipient req) s = (False, cb, s1) \<and>
       s' = record_delivery_attempt (attempt_id rd) (utc_now rd) tid (attempts notif + 1)
              ''failed'' 0 (Some ''circuit_open'') None s1) \<or>
    (\<exists>notif req cb s1 s2. notifications s tid = Some notif \<and>
       reconstruct_request_from_notif notif = Inr req \<and>
       check_breaker rd (r_recipient req) s = (True, cb, s1) \<and>
       check_rate_limit rd (r_recipient req) s1 = (False, s2) \<and>
       s' = enqueue_ready tid (r_priority req) s2) \<or>
    (\<exists>notif req cb s1 s2. notifications s tid = Some notif \<and>
       reconstruct_request_from_notif notif = Inr req \<and>
       check_breaker rd (r_recipient req) s = (True, cb, s1) \<and>
       check_rate_limit rd (r_recipient req) s1 = (True, s2) \<and>
       s' = attempt_send rd tid notif req (get_retry_plan (r_priority req)) cb s2)"
proof (cases "notifications s tid")
  case None
  then show ?thesis using assms by (simp add: process_missing)
next
  case (Some notif)
  show ?thesis
  proof (cases "reconstruct_request_from_notif notif")
    case (Inl e)
    then show ?thesis using assms Some by (simp add: process_invalid)
  next
    case (Inr req)
    obtain al cb s1 where cb: "check_breaker rd (r_recipient req) s = (al, cb, s1)"
      by (cases "check_breaker rd (r_recipient req) s")
    show ?thesis
    proof (cases al)
      case False
      then show ?thesis using assms Some Inr cb process_circuit_open [OF Some Inr] by auto
    next
      case True
      obtain ok s2 where rl: "check_rate_limit rd (r_recipient req) s1 = (ok, s2)"
        by (cases "check_rate_limit rd (r_recipient req) s1")
      show ?thesis
      proof (cases ok)
        case False
        then show ?thesis
          using assms Some Inr cb True rl process_rate_limited [OF Some Inr] by auto
      next
        case ok: True
        then show ?thesis
          using assms Some Inr cb True rl process_dispatched [OF Some Inr] by auto
      qed
    qed
  qed
qed

text \<open>What a call leaves of the queue and the sequence counter.\<close>

lemma process_queue:
  assumes "process_tracking_id rd tid s = Inr s'"
  shows "(ready_queue s' = ready_queue s \<and> seq_counter s' = seq_counter s) \<or>
    (\<exists>pv. ready_queue s' = ready_queue s @ [(pv, seq_counter s + 1, tid)] \<and>
          seq_counter s' = seq_counter s + 1)"
  using process_cases [OF assms]
  by (auto dest!: check_breaker_frame check_rate_limit_frame)

subsection \<open>The order of the queue\<close>

lemma drain_Nil: "drain [] = []"
  by (subst drain.simps) (simp add: queue_get_def)

lemma drain_step: "queue_get q = Some (e, q') \<Longrightarrow> drain q = e # drain q'"
  by (subst drain.simps) simp

lemma sorted_distinct_seq:
  "sorted (xs :: entry list) \<Longrightarrow> distinct (map (\<lambda>e. fst (snd e)) xs) \<Longrightarrow>
   sorted_wrt (\<lambda>a b. fst a < fst b \<or> (fst a = fst b \<and> fst (snd a) < fst (snd b))) xs"
proof (induction xs)
  case Nil
  then show ?case by simp
next
  case (Cons x xs)
  have "fst x < fst y \<or> (fst x = fst y \<and> fst (snd x) < fst (snd y))" if y: "y \<in> set xs" for y
  proof -
    have "x \<le> y" using Cons.prems(1) y by simp
    then have "fst x < fst y \<or> (fst x = fst y \<and> fst (snd x) \<le> fst (snd y))"
      by (rule entry_le_rank_seq)
    moreover have "fst (snd x) \<noteq> fst (snd y)" using Cons.prems(2) y by auto
    ultimately show ?thesis by auto
  qed
  then show ?case using Cons by simp
qed

lemma drain_strict:
  assumes "distinct (map (\<lambda>e. fst (snd e)) q)"
  shows "sorted_wrt (\<lambda>a b. fst a < fst b \<or> (fst a = fst b \<and> fst (snd a) < fst (snd b))) (drain q)"
proof -
  have "mset (map (\<lambda>e. fst (snd e)) (drain q)) = mset (map (\<lambda>e. fst (snd e)) q)"
    using mset_drain [of q] by (metis mset_map)
  then have "distinct (map (\<lambda>e. fst (snd e)) (drain q))"
    using assms by (metis mset_eq_imp_distinct_iff)
  then show ?thesis using sorted_drain by (rule sorted_distinct_seq [rotated])
qed

text \<open>The sequence numbers of the queued entries: all different, none above the counter.\<close>

lemma seq_append:
  assumes "distinct (map (\<lambda>e. fst (snd e)) q) \<and> (\<forall>e\<in>set q. fst (snd e) \<le> (c::int))"
  shows "distinct (map (\<lambda>e. fst (snd e)) (q @ [(pv, c + 1, t)])) \<and>
         (\<forall>e\<in>set (q @ [(pv, c + 1, t)]). fst (snd e) \<le> c + 1)"
  using assms by (auto simp: image_iff)

lemma seq_remove1:
  assumes "distinct (map (\<lambda>e. fst (snd e)) q) \<and> (\<forall>e\<in>set q. fst (snd e) \<le> c)"
  shows "distinct (map (\<lambda>e. fst (snd e)) (remove1 x q)) \<and> (\<forall>e\<in>set (remove1 x q). fst (snd e) \<le> (c::int))"
proof -
  have "distinct (remove1 x q)" using assms by (simp add: distinct_map)
  moreover have "inj_on (\<lambda>e. fst (snd e)) (set (remove1 x q))"
    using assms by (auto simp: distinct_map intro: inj_on_diff)
  moreover have "\<forall>e\<in>set (remove1 x q). fst (snd e) \<le> c"
    using assms set_remove1_subset [of x q] by auto
  ultimately show ?thesis by (simp add: distinct_map)
qed

lemma reachable_seq:
  "reachable s \<Longrightarrow>
   distinct (map (\<lambda>e. fst (snd e)) (ready_queue s)) \<and> (\<forall>e\<in>set (ready_queue s). fst (snd e) \<le> seq_counter s)"
proof (induction rule: reachable.induct)
  case (start rl cd)
  show ?case by (simp add: initial_def)
next
  case (admit s tid utcnow req s')
  from admit.hyps(2) have "s' = enqueue_ready tid (r_priority req)
      (s\<lparr>notifications := (notifications s)(tid \<mapsto>
          \<lparr>tracking_id = tid, channel = r_channel req, recipient = r_recipient req,
           content = JObj [(''content'', or_empty (r_content req)),
             (''variables'', or_empty (r_variables req)),
             (''metadata'', or_empty (r_metadata req)),
             (''template_id'', r_template_id req)],
           status = ''queued'', priority = r_priority req,
           attempts = 0, created_at = utcnow, scheduled_for = None,
           delivered_at = None, last_attempt_at = None, failure_reason = None\<rparr>)\<rparr>)"
    by (simp add: enqueue_notification_def Let_def split: if_splits)
  then have "ready_queue s' = ready_queue s @ [(priority_value (r_priority req), seq_counter s + 1, tid)]"
    "seq_counter s' = seq_counter s + 1" by simp_all
  then show ?case using seq_append [OF admit.IH] by simp
next
  case (work s rd s')
  from work.hyps(2) obtain pv sq tid q' where
    g: "queue_get (ready_queue s) = Some ((pv, sq, tid), q')"
    and s': "s' = (case process_tracking_id rd tid (s\<lparr>ready_queue := q'\<rparr>) of
                    Inl e \<Rightarrow> s\<lparr>ready_queue := q'\<rparr> | Inr s2 \<Rightarrow> s2)"
    by (auto simp: worker_step_def Let_def split: option.splits prod.splits)
  have q': "q' = remove1 (pv, sq, tid) (ready_queue s)" using queue_get_Some [OF g] by simp
  have i1: "distinct (map (\<lambda>e. fst (snd e)) q') \<and> (\<forall>e\<in>set q'. fst (snd e) \<le> seq_counter s)"
    unfolding q' using work.IH by (rule seq_remove1)
  show ?case
  proof (cases "process_tracking_id rd tid (s\<lparr>ready_queue := q'\<rparr>)")
    case (Inl e)
    then show ?thesis using s' i1 by simp
  next
    case (Inr s2)
    then have e: "s' = s2" using s' by simp
    from process_queue [OF Inr] show ?thesis
    proof
      assume "ready_queue s2 = ready_queue (s\<lparr>ready_queue := q'\<rparr>) \<and>
              seq_counter s2 = seq_counter (s\<lparr>ready_queue := q'\<rparr>)"
      then show ?thesis using i1 e by simp
    next
      assume "\<exists>pv. ready_queue s2 = ready_queue (s\<lparr>ready_queue := q'\<rparr>) @
                 [(pv, seq_counter (s\<lparr>ready_queue := q'\<rparr>) + 1, tid)] \<and>
              seq_counter s2 = seq_counter (s\<lparr>ready_queue := q'\<rparr>) + 1"
      then obtain pv' where "ready_queue s2 = q' @ [(pv', seq_counter s + 1, tid)]"
        "seq_counter s2 = seq_counter s + 1" by auto
      then show ?thesis using seq_append [OF i1, of pv' tid] e by simp
    qed
  qed
next
  case (wake s i)
  show ?case
  proof (cases "i < length (timers s)")
    case False
    then show ?thesis using wake.IH by (simp add: delayed_requeue_def)
  next
    case True
    obtain d t p where "timers s ! i = (d, t, p)" by (cases "timers s ! i")
    from delayed_requeue_fire [OF True this]
    have "ready_queue (delayed_requeue i s) = ready_queue s @ [(priority_value p, seq_counter s + 1, t)]"
      "seq_counter (delayed_requeue i s) = seq_counter s + 1" by simp_all
    then show ?thesis using seq_append [OF wake.IH] by simp
  qed
qed

text \<open>
  Claim C6. The ranks are 0 for critical, 1 for high, 2 for normal and 3 for low, and
  \<^verbatim>\<open>_enqueue_ready\<close> appends the entry (rank, sequence, tracking id) with the
  sequence one above the counter, which it advances; so in every state the service
  reaches the queued entries carry different sequence numbers, none above the
  counter. \<^verbatim>\<open>get\<close> takes an entry of the queue that no other entry precedes: every
  entry has a higher rank, or the same rank and no smaller sequence. Emptying a queue
  therefore yields its entries by rising rank and, within a rank, by rising sequence
  (strictly rising in a state the service reaches). A low entry and then a high entry
  put on an empty queue: the high one is taken first.
\<close>

theorem queue_dequeue_order:
  "priority_value ''critical'' = 0 \<and> priority_value ''high'' = 1 \<and>
   priority_value ''normal'' = 2 \<and> priority_value ''low'' = 3 \<and>
   ready_queue (enqueue_ready tid prio s) = ready_queue s @ [(priority_value prio, seq_counter s + 1, tid)] \<and>
   seq_counter (enqueue_ready tid prio s) = seq_counter s + 1 \<and>
   (reachable s \<longrightarrow>
      distinct (map (\<lambda>e. fst (snd e)) (ready_queue s)) \<and>
      (\<forall>e\<in>set (ready_queue s). fst (snd e) \<le> seq_counter s) \<and>
      sorted_wrt (\<lambda>a b. fst a < fst b \<or> (fst a = fst b \<and> fst (snd a) < fst (snd b)))
        (drain (ready_queue s))) \<and>
   (queue_get q = Some (e, q') \<longrightarrow>
      e \<in> set q \<and> q' = remove1 e q \<and>
      (\<forall>x\<in>set q. fst e < fst x \<or> (fst e = fst x \<and> fst (snd e) \<le> fst (snd x)))) \<and>
   (queue_get q = None \<longleftrightarrow> q = []) \<and>
   mset (drain q) = mset q \<and>
   sorted_wrt (\<lambda>a b. fst a < fst b \<or> (fst a = fst b \<and> fst (snd a) \<le> fst (snd b))) (drain q) \<and>
   (ready_queue s = [] \<longrightarrow>
      queue_get (ready_queue (enqueue_ready hi ''high'' (enqueue_ready lo ''low'' s)))
        = Some ((1, seq_counter s + 2, hi), [(3, seq_counter s + 1, lo)]))"
proof -
  have 1: "priority_value ''critical'' = 0 \<and> priority_value ''high'' = 1 \<and>
   priority_value ''normal'' = 2 \<and> priority_value ''low'' = 3"
    by (simp add: priority_value_def)
  have 2: "ready_queue (enqueue_ready tid prio s) = ready_queue s @ [(priority_value prio, seq_counter s + 1, tid)] \<and>
   seq_counter (enqueue_ready tid prio s) = seq_counter s + 1"
    by simp
  have 3: "distinct (map (\<lambda>e. fst (snd e)) (ready_queue s)) \<and>
      (\<forall>e\<in>set (ready_queue s). fst (snd e) \<le> seq_counter s) \<and>
      sorted_wrt (\<lambda>a b. fst a < fst b \<or> (fst a = fst b \<and> fst (snd a) < fst (snd b)))
        (drain (ready_queue s))" if "reachable s"
    using reachable_seq [OF that] drain_strict [of "ready_queue s"] by blast
  have 4: "e \<in> set q \<and> q' = remove1 e q \<and>
      (\<forall>x\<in>set q. fst e < fst x \<or> (fst e = fst x \<and> fst (snd e) \<le> fst (snd x)))"
    if "queue_get q = Some (e, q')"
    using queue_get_Some [OF that] entry_le_rank_seq [of e] by blast
  have 5: "ready_queue s = [] \<Longrightarrow>
      queue_get (ready_queue (enqueue_ready hi ''high'' (enqueue_ready lo ''low'' s)))
        = Some ((1, seq_counter s + 2, hi), [(3, seq_counter s + 1, lo)])"
    by (simp add: queue_get_def priority_value_def less_prod_def add.assoc)
  from 1 2 3 4 5 queue_get_None [of q] mset_drain [of q] drain_order [of q]
  show ?thesis by blast
qed

lemma example_admitted:
  "enqueue_notification ''t1'' 0 (example_request ''sms'' ''+15551234567'' prio) (initial rl 60)
     = Inr ((example_pipeline prio)\<lparr>rate_limiter := rl\<rparr>)"
  by (simp add: enqueue_notification_def example_request_def example_pipeline_def initial_def
      example_notification_def enqueue_ready_def put_nowait_def or_empty_def Let_def)

lemma example_pipeline_reachable: "reachable (example_pipeline prio)"
proof -
  have "reachable ((example_pipeline prio)\<lparr>rate_limiter := None\<rparr>)"
    by (rule reachable.admit [OF reachable.start example_admitted])
  then show ?thesis by (simp add: example_pipeline_def initial_def)
qed

theorem queue_dequeue_order_witness:
  "reachable (example_pipeline ''normal'') \<and>
   distinct (map (\<lambda>e. fst (snd e)) (ready_queue (example_pipeline ''normal''))) \<and>
   sorted_wrt (\<lambda>a b. fst a < fst b \<or> (fst a = fst b \<and> fst (snd a) < fst (snd b)))
     (drain (ready_queue (example_pipeline ''normal''))) \<and>
   queue_get [(3, 1, ''a''), (1, 2, ''b''), (1, 3, ''c'')] = Some ((1, 2, ''b''), [(3, 1, ''a''), (1, 3, ''c'')]) \<and>
   ((1, 2, ''b'') :: entry) \<in> set [(3, 1, ''a''), (1, 2, ''b''), (1, 3, ''c'')] \<and>
   queue_get (ready_queue (enqueue_ready ''b'' ''high'' (enqueue_ready ''a'' ''low'' (initial None 60))))
     = Some ((1, 2, ''b''), [(3, 1, ''a'')])"
proof -
  have r: "reachable (example_pipeline ''normal'')" by (rule example_pipeline_reachable)
  have g: "queue_get [(3, 1, ''a''), (1, 2, ''b''), (1, 3, ''c'')]
             = Some ((1, 2, ''b''), [(3, 1, ''a''), (1, 3, ''c'')])"
    by (simp add: queue_get_def less_prod_def)
  have e: "ready_queue (initial None 60) = []" "seq_counter (initial None 60) = 0"
    by (simp_all add: initial_def)
  have 1: "distinct (map (\<lambda>e. fst (snd e)) (ready_queue (example_pipeline ''normal''))) \<and>
   sorted_wrt (\<lambda>a b. fst a < fst b \<or> (fst a = fst b \<and> fst (snd a) < fst (snd b)))
     (drain (ready_queue (example_pipeline ''normal'')))"
    using queue_dequeue_order [where s = "example_pipeline ''normal''",
        THEN conjunct2, THEN conjunct2, THEN conjunct2, THEN conjunct2, THEN conjunct2,
        THEN conjunct2, THEN conjunct1] r
    by blast
  have 2: "((1, 2, ''b'') :: entry) \<in> set [(3, 1, ''a''), (1, 2, ''b''), (1, 3, ''c'')]"
    using queue_dequeue_order [where q = "[(3, 1, ''a''), (1, 2, ''b''), (1, 3, ''c'')]"
        and e = "(1, 2, ''b'')" and q' = "[(3, 1, ''a''), (1, 3, ''c'')]",
        THEN conjunct2, THEN conjunct2, THEN conjunct2, THEN conjunct2, THEN conjunct2,
        THEN conjunct2, THEN conjunct2, THEN conjunct1] g
    by blast
  have 3: "queue_get (ready_queue (enqueue_ready ''b'' ''high'' (enqueue_ready ''a'' ''low'' (initial None 60))))
     = Some ((1, 2, ''b''), [(3, 1, ''a'')])"
    using queue_dequeue_order [where s = "initial None 60" and hi = "''b''" and lo = "''a''",
        THEN conjunct2, THEN conjunct2, THEN conjunct2, THEN conjunct2, THEN conjunct2,
        THEN conjunct2, THEN conjunct2, THEN conjunct2, THEN conjunct2, THEN conjunct2,
        THEN conjunct2] e
    by simp
  from r 1 g 2 3 show ?thesis by blast
qed

section \<open>Properties of the attempt log\<close>

lemma in_flight_same:
  "ready_queue s' = ready_queue s \<Longrightarrow> timers s' = timers s \<Longrightarrow> in_flight s' = in_flight s"
  by (simp add: in_flight_def)

lemma in_flight_enqueue_ready [simp]:
  "in_flight (enqueue_ready tid prio s) = in_flight s + {#tid#}"
  by (simp add: in_flight_def)

lemma in_flight_taken:
  "e \<in> set (ready_queue s) \<Longrightarrow>
   in_flight s = in_flight (s\<lparr>ready_queue := remove1 e (ready_queue s)\<rparr>) + {#snd (snd e)#}"
proof -
  assume e: "e \<in> set (ready_queue s)"
  then have "mset (ready_queue s) = add_mset e (mset (remove1 e (ready_queue s)))" by simp
  then have "image_mset (\<lambda>e. snd (snd e)) (mset (ready_queue s))
      = add_mset (snd (snd e)) (image_mset (\<lambda>e. snd (snd e)) (mset (remove1 e (ready_queue s))))"
    by (metis image_mset_add_mset)
  then show ?thesis by (simp add: in_flight_def)
qed

lemma in_flight_woken:
  assumes "i < length (timers s)" "timers s ! i = (d, t, p)"
  shows "in_flight (delayed_requeue i s) = in_flight s"
proof -
  have "timers s = take i (timers s) @ (d, t, p) # drop (Suc i) (timers s)"
    using id_take_nth_drop [OF assms(1)] assms(2) by simp
  then have "mset (timers s) = add_mset (d, t, p) (mset (take i (timers s) @ drop (Suc i) (timers s)))"
    by (metis mset.simps(2) mset_append union_mset_add_mset_right)
  then have "image_mset (\<lambda>t. fst (snd t)) (mset (timers s))
      = add_mset t (image_mset (\<lambda>t. fst (snd t)) (mset (take i (timers s) @ drop (Suc i) (timers s))))"
    by simp
  then show ?thesis
    unfolding delayed_requeue_fire [OF assms] by (simp add: in_flight_def)
qed

text \<open>What a call leaves of the row it works on, of the other rows and of the in_flight.\<close>

lemma process_effect:
  assumes p: "process_tracking_id rd tid s = Inr s'"
    and n: "notifications s tid = Some notif" and d: "delivered_at notif = None"
  shows "(\<forall>t. t \<noteq> tid \<longrightarrow> notifications s' t = notifications s t) \<and>
    (\<exists>n'. notifications s' tid = Some n' \<and>
       (delivered_at n' \<noteq> None \<longrightarrow> status n' = ''delivered'') \<and>
       (in_flight s' \<noteq> in_flight s \<longrightarrow> delivered_at n' = None)) \<and>
    (in_flight s' = in_flight s \<or> in_flight s' = in_flight s + {#tid#})"
proof -
  obtain req where req: "reconstruct_request_from_notif notif = Inr req"
    using p process_invalid [OF n, of _ rd] by (cases "reconstruct_request_from_notif notif") auto
  obtain al cb s1 where cb: "check_breaker rd (r_recipient req) s = (al, cb, s1)"
    by (cases "check_breaker rd (r_recipient req) s")
  obtain ok s2 where rl: "check_rate_limit rd (r_recipient req) s1 = (ok, s2)"
    by (cases "check_rate_limit rd (r_recipient req) s1")
  have s1: "s1 = s\<lparr>circuit_breakers := (circuit_breakers s)(r_recipient req \<mapsto> cb)\<rparr>"
    using check_breaker_frame [OF cb] by simp
  obtain x where s2: "s2 = s1\<lparr>rate_limiter := x\<rparr>"
    using check_rate_limit_frame [OF rl] by blast
  consider (refused) "\<not> al" | (limited) "al" "\<not> ok" | (sent) "al" "ok" by blast
  then show ?thesis
  proof cases
    case refused
    then have c0: "check_breaker rd (r_recipient req) s = (False, cb, s1)" using cb by simp
    have e: "s' = record_delivery_attempt (attempt_id rd) (utc_now rd) tid (attempts notif + 1)
              ''failed'' 0 (Some ''circuit_open'') None s1"
      using process_circuit_open [OF n req c0] p by simp
    have n1: "notifications s1 tid = Some notif" using n by (simp add: s1)
    have a: "\<forall>t. t \<noteq> tid \<longrightarrow> notifications s' t = notifications s t"
      by (simp add: e s1)
    have b: "in_flight s' = in_flight s" by (rule in_flight_same) (simp_all add: e s1)
    have c: "\<exists>n'. notifications s' tid = Some n' \<and> delivered_at n' = None"
      unfolding e rda_row [OF n1] using d by simp
    from a b c show ?thesis by auto
  next
    case limited
    then have c0: "check_breaker rd (r_recipient req) s = (True, cb, s1)"
      and r0: "check_rate_limit rd (r_recipient req) s1 = (False, s2)" using cb rl by simp_all
    have e: "s' = enqueue_ready tid (r_priority req) s2"
      using process_rate_limited [OF n req c0 r0] p by simp
    have a: "notifications s' = notifications s" by (simp add: e s2 s1)
    have "in_flight s2 = in_flight s" by (rule in_flight_same) (simp_all add: s2 s1)
    then have b: "in_flight s' = in_flight s + {#tid#}" by (simp add: e)
    from a b n d show ?thesis by simp
  next
    case sent
    then have c0: "check_breaker rd (r_recipient req) s = (True, cb, s1)"
      and r0: "check_rate_limit rd (r_recipient req) s1 = (True, s2)" using cb rl by simp_all
    have e: "s' = attempt_send rd tid notif req (get_retry_plan (r_priority req)) cb s2"
      using process_dispatched [OF n req c0 r0] p by simp
    let ?plan = "get_retry_plan (r_priority req)"
    have a: "\<forall>t. t \<noteq> tid \<longrightarrow> notifications s' t = notifications s t"
      by (simp add: e s2 s1)
    have q: "ready_queue s' = ready_queue s" by (simp add: e s2 s1)
    have t: "timers s' =
       (if retryable (dispatch rd) \<and> attempts notif + 1 < max_attempts ?plan
        then timers s @ [(next_delay ?plan (attempts notif + 2) (jitter_draw rd), tid, r_priority req)]
        else timers s)"
      by (simp add: e s2 s1)
    have r: "notifications s' tid =
       Some (notif\<lparr>attempts := attempts notif + 1,
               last_attempt_at := Some (utc_now rd),
               status := outcome_status (dispatch rd),
               delivered_at := (if outcome_status (dispatch rd) = ''delivered'' then Some (utc_now rd)
                                else delivered_at notif),
               failure_reason := outcome_message (dispatch rd)\<rparr>)"
      unfolding e by (rule attempt_send_row)
    show ?thesis
    proof (cases "retryable (dispatch rd) \<and> attempts notif + 1 < max_attempts ?plan")
      case True
      then have f: "outcome_status (dispatch rd) = ''failed''" by (simp add: retryable_failed)
      have b: "in_flight s' = in_flight s + {#tid#}" using t q True by (simp add: in_flight_def)
      from a b r f d show ?thesis by simp
    next
      case False
      have b: "in_flight s' = in_flight s" using t q False by (simp add: in_flight_def)
      from a b r d show ?thesis by simp
    qed
  qed
qed

lemma inv_step:
  assumes ti: "token_inv s" and di: "delivered_inv s"
    and o: "\<forall>t. t \<noteq> tid \<longrightarrow> notifications s' t = notifications s t"
    and f: "tid \<notin># in_flight s"
    and r: "\<exists>n'. notifications s' tid = Some n' \<and>
       (delivered_at n' \<noteq> None \<longrightarrow> status n' = ''delivered'') \<and>
       (in_flight s' \<noteq> in_flight s \<longrightarrow> delivered_at n' = None)"
    and tk: "in_flight s' = in_flight s \<or> in_flight s' = in_flight s + {#tid#}"
  shows "token_inv s' \<and> delivered_inv s'"
proof
  from r obtain n' where n': "notifications s' tid = Some n'"
    "delivered_at n' \<noteq> None \<longrightarrow> status n' = ''delivered''"
    "in_flight s' \<noteq> in_flight s \<longrightarrow> delivered_at n' = None" by blast
  show "delivered_inv s'"
    unfolding delivered_inv_def
  proof (intro allI impI)
    fix t n assume h: "notifications s' t = Some n" "delivered_at n \<noteq> None"
    show "status n = ''delivered''"
    proof (cases "t = tid")
      case True
      then show ?thesis using h n' by simp
    next
      case False
      then have "notifications s t = Some n" using o h by simp
      then show ?thesis using di h unfolding delivered_inv_def by blast
    qed
  qed
  show "token_inv s'"
    unfolding token_inv_def
  proof (intro allI impI)
    fix t assume h: "t \<in># in_flight s'"
    show "count (in_flight s') t = 1 \<and> (\<exists>n. notifications s' t = Some n \<and> delivered_at n = None)"
    proof (cases "t = tid")
      case True
      then have ne: "in_flight s' \<noteq> in_flight s" using h f by auto
      then have "in_flight s' = in_flight s + {#tid#}" using tk by simp
      then have "count (in_flight s') tid = 1" using f by (simp add: not_in_iff)
      then show ?thesis using True n' ne by simp
    next
      case False
      then have m: "t \<in># in_flight s" using h tk by auto
      have c: "count (in_flight s') t = count (in_flight s) t" using tk False by auto
      from ti m have "count (in_flight s) t = 1 \<and> (\<exists>n. notifications s t = Some n \<and> delivered_at n = None)"
        unfolding token_inv_def by blast
      then show ?thesis using c o False by simp
    qed
  qed
qed

lemma reachable_inv: "reachable s \<Longrightarrow> token_inv s \<and> delivered_inv s"
proof (induction rule: reachable.induct)
  case (start rl cd)
  show ?case by (simp add: token_inv_def delivered_inv_def in_flight_def initial_def)
next
  case (admit s tid utcnow req s')
  let ?n = "\<lparr>tracking_id = tid, channel = r_channel req, recipient = r_recipient req,
           content = JObj [(''content'', or_empty (r_content req)),
             (''variables'', or_empty (r_variables req)),
             (''metadata'', or_empty (r_metadata req)),
             (''template_id'', r_template_id req)],
           status = ''queued'', priority = r_priority req,
           attempts = 0, created_at = utcnow, scheduled_for = None,
           delivered_at = None, last_attempt_at = None, failure_reason = None\<rparr>"
  from admit.hyps(2) have new: "notifications s tid = None"
    and s': "s' = enqueue_ready tid (r_priority req) (s\<lparr>notifications := (notifications s)(tid \<mapsto> ?n)\<rparr>)"
    by (auto simp: enqueue_notification_def Let_def split: if_splits)
  have f: "tid \<notin># in_flight s" using admit.IH new unfolding token_inv_def by force
  have o: "\<forall>t. t \<noteq> tid \<longrightarrow> notifications s' t = notifications s t" by (simp add: s')
  have r: "\<exists>n'. notifications s' tid = Some n' \<and>
       (delivered_at n' \<noteq> None \<longrightarrow> status n' = ''delivered'') \<and>
       (in_flight s' \<noteq> in_flight s \<longrightarrow> delivered_at n' = None)"
    by (simp add: s')
  have "in_flight (s\<lparr>notifications := (notifications s)(tid \<mapsto> ?n)\<rparr>) = in_flight s"
    by (rule in_flight_same) simp_all
  then have tk: "in_flight s' = in_flight s \<or> in_flight s' = in_flight s + {#tid#}" by (simp add: s')
  from admit.IH show ?case using inv_step [OF _ _ o f r tk] by blast
next
  case (work s rd s')
  from work.hyps(2) obtain pv sq tid q' where
    g: "queue_get (ready_queue s) = Some ((pv, sq, tid), q')"
    and s': "s' = (case process_tracking_id rd tid (s\<lparr>ready_queue := q'\<rparr>) of
                    Inl e \<Rightarrow> s\<lparr>ready_queue := q'\<rparr> | Inr s2 \<Rightarrow> s2)"
    by (auto simp: worker_step_def Let_def split: option.splits prod.splits)
  let ?s1 = "s\<lparr>ready_queue := q'\<rparr>"
  have q': "q' = remove1 (pv, sq, tid) (ready_queue s)" and m: "(pv, sq, tid) \<in> set (ready_queue s)"
    using queue_get_Some [OF g] by simp_all
  have tk: "in_flight s = in_flight ?s1 + {#tid#}" using in_flight_taken [OF m] q' by simp
  from work.IH have ti: "token_inv s" and di: "delivered_inv s" by simp_all
  have "tid \<in># in_flight s" using tk by simp
  with ti obtain notif where c: "count (in_flight s) tid = 1"
    and n: "notifications s tid = Some notif" and d: "delivered_at notif = None"
    unfolding token_inv_def by blast
  have f: "tid \<notin># in_flight ?s1" using c tk by (simp add: not_in_iff)
  have ti1: "token_inv ?s1"
    unfolding token_inv_def
  proof (intro allI impI)
    fix t assume h: "t \<in># in_flight ?s1"
    then have ne: "t \<noteq> tid" using f by auto
    have "t \<in># in_flight s" using h tk by simp
    with ti have "count (in_flight s) t = 1 \<and> (\<exists>n. notifications s t = Some n \<and> delivered_at n = None)"
      unfolding token_inv_def by blast
    then show "count (in_flight ?s1) t = 1 \<and> (\<exists>n. notifications ?s1 t = Some n \<and> delivered_at n = None)"
      using tk ne by simp
  qed
  have di1: "delivered_inv ?s1" using di by (simp add: delivered_inv_def)
  show ?case
  proof (cases "process_tracking_id rd tid ?s1")
    case (Inl e)
    then show ?thesis using s' ti1 di1 by simp
  next
    case (Inr s2)
    have n1: "notifications ?s1 tid = Some notif" using n by simp
    from process_effect [OF Inr n1 d] inv_step [OF ti1 di1 _ f, of s2]
    have "token_inv s2 \<and> delivered_inv s2" by blast
    then show ?thesis using s' Inr by simp
  qed
next
  case (wake s i)
  show ?case
  proof (cases "i < length (timers s)")
    case False
    then show ?thesis using wake.IH by (simp add: delayed_requeue_def)
  next
    case True
    obtain d t p where e: "timers s ! i = (d, t, p)" by (cases "timers s ! i")
    have tk: "in_flight (delayed_requeue i s) = in_flight s" by (rule in_flight_woken [OF True e])
    have n: "notifications (delayed_requeue i s) = notifications s"
      unfolding delayed_requeue_fire [OF True e] by simp
    show ?thesis using wake.IH by (simp add: token_inv_def delivered_inv_def tk n)
  qed
qed

text \<open>
  Claim C5. \<^verbatim>\<open>record_delivery_attempt\<close> appends the attempt row. When the parent row
  is stored it sets \<open>attempts\<close> to \<open>max(attempts, attempt_number)\<close> and
  \<open>last_attempt_at\<close> to the attempt's time; for status delivered it sets the status
  delivered, \<open>delivered_at\<close> to the attempt's time and clears \<open>failure_reason\<close>; for
  status failed or bounced it sets that status and \<open>failure_reason\<close> to the error
  message and leaves \<open>delivered_at\<close>; the other rows stay. In every state that the
  service reaches, a row with \<open>delivered_at\<close> set has status delivered.
\<close>

theorem record_delivery_attempt_effect:
  "delivery_attempts (record_delivery_attempt i u tid k st lat err code s) =
     delivery_attempts s @
       [\<lparr>a_id = i, a_tracking_id = tid, a_attempt_number = k, a_status = st, a_error_message = err,
         a_response_code = code, a_attempted_at = u, a_latency_ms = lat\<rparr>] \<and>
   (notifications s tid = Some n \<longrightarrow>
      notifications (record_delivery_attempt i u tid k st lat err code s) tid =
        Some (n\<lparr>attempts := max (attempts n) k,
                last_attempt_at := Some u,
                status := (if st = ''delivered'' \<or> st = ''failed'' \<or> st = ''bounced'' then st else status n),
                delivered_at := (if st = ''delivered'' then Some u else delivered_at n),
                failure_reason := (if st = ''delivered'' then None
                                   else if st = ''failed'' \<or> st = ''bounced'' then err
                                   else failure_reason n)\<rparr>)) \<and>
   (notifications s tid = None \<longrightarrow>
      notifications (record_delivery_attempt i u tid k st lat err code s) = notifications s) \<and>
   (\<forall>t. t \<noteq> tid \<longrightarrow>
      notifications (record_delivery_attempt i u tid k st lat err code s) t = notifications s t) \<and>
   (reachable r \<and> notifications r t = Some m \<and> delivered_at m \<noteq> None \<longrightarrow> status m = ''delivered'')"
proof -
  have 1: "delivery_attempts (record_delivery_attempt i u tid k st lat err code s) =
     delivery_attempts s @
       [\<lparr>a_id = i, a_tracking_id = tid, a_attempt_number = k, a_status = st, a_error_message = err,
         a_response_code = code, a_attempted_at = u, a_latency_ms = lat\<rparr>]"
    by simp
  have 2: "notifications (record_delivery_attempt i u tid k st lat err code s) tid =
        Some (n\<lparr>attempts := max (attempts n) k,
                last_attempt_at := Some u,
                status := (if st = ''delivered'' \<or> st = ''failed'' \<or> st = ''bounced'' then st else status n),
                delivered_at := (if st = ''delivered'' then Some u else delivered_at n),
                failure_reason := (if st = ''delivered'' then None
                                   else if st = ''failed'' \<or> st = ''bounced'' then err
                                   else failure_reason n)\<rparr>)"
    if "notifications s tid = Some n"
    using that by (rule rda_row)
  have 3: "notifications (record_delivery_attempt i u tid k st lat err code s) = notifications s"
    if "notifications s tid = None"
    using that by (rule rda_missing)
  have 4: "\<forall>t. t \<noteq> tid \<longrightarrow>
      notifications (record_delivery_attempt i u tid k st lat err code s) t = notifications s t"
    by simp
  have 5: "status m = ''delivered''"
    if "reachable r \<and> notifications r t = Some m \<and> delivered_at m \<noteq> None"
    using that reachable_inv [of r] unfolding delivered_inv_def by blast
  from 1 2 3 4 5 show ?thesis by blast
qed

lemma example_delivered:
  "\<exists>s' m. worker_step (example_readings 20 (Returned JNull)) (example_pipeline ''normal'') = Some s' \<and>
     notifications s' ''t1'' = Some m \<and> delivered_at m = Some 1000"
  by (simp add: example_eval)

theorem record_delivery_attempt_effect_witness:
  "(\<exists>n'. notifications (record_delivery_attempt ''a1'' 1000 ''t1'' 1 ''delivered'' 12 None None
             (example_pipeline ''normal'')) ''t1'' = Some n' \<and>
          status n' = ''delivered'' \<and> delivered_at n' = Some 1000 \<and> attempts n' = 1 \<and>
          failure_reason n' = None) \<and>
   (\<exists>n'. notifications (record_delivery_attempt ''a1'' 1000 ''t1'' 1 ''failed'' 12 (Some ''boom'') None
             (example_pipeline ''normal'')) ''t1'' = Some n' \<and>
          status n' = ''failed'' \<and> delivered_at n' = None \<and> failure_reason n' = Some ''boom'') \<and>
   (\<exists>s' m. worker_step (example_readings 20 (Returned JNull)) (example_pipeline ''normal'') = Some s' \<and>
      reachable s' \<and> notifications s' ''t1'' = Some m \<and> delivered_at m = Some 1000 \<and>
      status m = ''delivered'')"
proof -
  let ?s = "example_pipeline ''normal''"
  let ?n = "example_notification ''t1'' ''sms'' ''+15551234567'' ''normal''"
  have n: "notifications ?s ''t1'' = Some ?n" by (simp add: example_pipeline_def)
  have a: "attempts ?n = 0" "delivered_at ?n = None" by (simp_all add: example_notification_def)
  have 1: "\<exists>n'. notifications (record_delivery_attempt ''a1'' 1000 ''t1'' 1 ''delivered'' 12 None None ?s) ''t1''
             = Some n' \<and>
          status n' = ''delivered'' \<and> delivered_at n' = Some 1000 \<and> attempts n' = 1 \<and>
          failure_reason n' = None"
    using record_delivery_attempt_effect [where s = ?s and tid = "''t1''" and n = ?n and i = "''a1''"
        and u = 1000 and k = 1 and st = "''delivered''" and lat = 12 and err = None and code = None,
        THEN conjunct2, THEN conjunct1] n a
    by simp
  have 2: "\<exists>n'. notifications (record_delivery_attempt ''a1'' 1000 ''t1'' 1 ''failed'' 12 (Some ''boom'') None ?s) ''t1''
             = Some n' \<and>
          status n' = ''failed'' \<and> delivered_at n' = None \<and> failure_reason n' = Some ''boom''"
    using record_delivery_attempt_effect [where s = ?s and tid = "''t1''" and n = ?n and i = "''a1''"
        and u = 1000 and k = 1 and st = "''failed''" and lat = 12 and err = "Some ''boom''" and code = None,
        THEN conjunct2, THEN conjunct1] n a
    by simp
  obtain s' m where w: "worker_step (example_readings 20 (Returned JNull)) ?s = Some s'"
    and m: "notifications s' ''t1'' = Some m" "delivered_at m = Some 1000"
    using example_delivered by blast
  have r: "reachable s'" by (rule reachable.work [OF example_pipeline_reachable w])
  have d: "status m = ''delivered''"
    using record_delivery_attempt_effect [where r = s' and t = "''t1''" and m = m,
        THEN conjunct2, THEN conjunct2, THEN conjunct2, THEN conjunct2] r m
    by simp
  have 3: "\<exists>s' m. worker_step (example_readings 20 (Returned JNull)) ?s = Some s' \<and>
      reachable s' \<and> notifications s' ''t1'' = Some m \<and> delivered_at m = Some 1000 \<and>
      status m = ''delivered''"
    apply (rule exI [of _ s'])
    apply (rule exI [of _ m])
    apply (intro conjI)
        apply (rule w)
       apply (rule r)
      apply (rule m(1))
     apply (rule m(2))
    apply (rule d)
    done
  show ?thesis
    apply (rule conjI)
     apply (rule 1)
    apply (rule conjI)
     apply (rule 2)
    apply (rule 3)
    done
qed

section \<open>Properties of the scheduler\<close>

text \<open>
  A due schedule that has not run before: the notification is enqueued and
  \<open>last_run\<close> becomes the current UTC time. With a recurrence the new \<open>send_at\<close> is
  the next occurrence of the cron expression as a UTC time with the zone dropped;
  \<^verbatim>\<open>_to_utc\<close> reads it back as a wall clock of the schedule's zone, that is, earlier
  by the offset of the zone. Without a recurrence the schedule is deactivated.
\<close>

lemma fired_recurring:
  assumes z: "zone (timezone sched) = Some off" and tz: "timezone sched \<noteq> []"
    and due: "send_at sched - off \<le> now" "last_run sched = None"
    and req: "new_NotificationRequest (notification_data sched) = Inr req"
    and enq: "enqueue_notification tid u req s = Inr s'"
    and rec: "recurrence sched = Some expr" "expr \<noteq> []"
    and nxt: "cron expr (send_at sched) = Some next_local"
  shows "process_due_schedule zone cron now tid u sched s
           = Inr (sched\<lparr>last_run := Some now, send_at := next_local - off\<rparr>, s')"
    and "next_cron_time zone cron (send_at sched - off) expr (timezone sched) = Inr (next_local - off)"
    and "to_utc zone (next_local - off) (timezone sched) = Inr (next_local - off - off)"
proof -
  show n: "next_cron_time zone cron (send_at sched - off) expr (timezone sched) = Inr (next_local - off)"
    using z nxt by (simp add: next_cron_time_def Let_def)
  show "to_utc zone (next_local - off) (timezone sched) = Inr (next_local - off - off)"
    using z by (simp add: to_utc_def)
  show "process_due_schedule zone cron now tid u sched s
           = Inr (sched\<lparr>last_run := Some now, send_at := next_local - off\<rparr>, s')"
    using z tz due req enq rec n by (simp add: process_due_schedule_def to_utc_def Let_def)
qed

lemma fired_once:
  assumes z: "zone (timezone sched) = Some off" and tz: "timezone sched \<noteq> []"
    and due: "send_at sched - off \<le> now" "last_run sched = None"
    and req: "new_NotificationRequest (notification_data sched) = Inr req"
    and enq: "enqueue_notification tid u req s = Inr s'"
    and rec: "recurrence sched = None"
  shows "process_due_schedule zone cron now tid u sched s
           = Inr (sched\<lparr>last_run := Some now, active := False\<rparr>, s')"
  using assms by (simp add: process_due_schedule_def to_utc_def Let_def)

text \<open>
  Claim C2, at the example schedule, polled five seconds after it is due. The
  notification is enqueued, \<open>last_run\<close> is the time of the poll and the zone is kept.
  The next occurrence of the cron expression in Tokyo is 2024-01-02 09:00:00 there,
  1704153600 in UTC, and that number is the new \<open>send_at\<close>. Read as a wall clock of
  Tokyo, as the next poll reads it, it is 1704121200 in UTC (2024-01-01 15:00:00),
  nine hours before the occurrence: the stored \<open>send_at\<close> does not denote the next
  occurrence in the schedule's zone.
\<close>

theorem scheduler_recurrence_stored_utc:
  "(\<exists>s'. process_due_schedule example_zone example_cron 1704067205 ''t1'' 0 example_schedule
            (initial None 60)
          = Inr (example_schedule\<lparr>last_run := Some 1704067205, send_at := 1704153600\<rparr>, s') \<and>
         ready_queue s' = [(2, 1, ''t1'')]) \<and>
   next_cron_time example_zone example_cron 1704067200 ''0 9 * * *'' ''Asia/Tokyo'' = Inr 1704153600 \<and>
   to_utc example_zone 1704153600 ''Asia/Tokyo'' = Inr 1704121200"
proof -
  have z: "example_zone (timezone example_schedule) = Some 32400"
    by (simp add: example_zone_def example_schedule_def)
  have tz: "timezone example_schedule \<noteq> []" by (simp add: example_schedule_def)
  have due: "send_at example_schedule - 32400 \<le> 1704067205" "last_run example_schedule = None"
    by (simp_all add: example_schedule_def)
  have req: "new_NotificationRequest (notification_data example_schedule)
               = Inr (example_request ''sms'' ''+15551234567'' ''normal'')"
    by (simp add: example_schedule_def new_NotificationRequest_def example_request_def Channel_def
        Priority_def strip_def is_space_def)
  have enq: "enqueue_notification ''t1'' 0 (example_request ''sms'' ''+15551234567'' ''normal'') (initial None 60)
               = Inr ((example_pipeline ''normal'')\<lparr>rate_limiter := None\<rparr>)"
    by (rule example_admitted)
  have rec: "recurrence example_schedule = Some ''0 9 * * *''" "''0 9 * * *'' \<noteq> []"
    by (simp_all add: example_schedule_def)
  have nxt: "example_cron ''0 9 * * *'' (send_at example_schedule) = Some 1704186000"
    by (simp add: example_cron_def example_schedule_def Let_def)
  note f = fired_recurring [where zone = example_zone and cron = example_cron and sched = example_schedule,
      OF z tz due req enq rec nxt]
  have q: "ready_queue ((example_pipeline ''normal'')\<lparr>rate_limiter := None\<rparr>) = [(2, 1, ''t1'')]"
    by (simp add: example_pipeline_def priority_value_def)
  have s: "send_at example_schedule - 32400 = 1704067200" "timezone example_schedule = ''Asia/Tokyo''"
    by (simp_all add: example_schedule_def)
  have 1: "\<exists>s'. process_due_schedule example_zone example_cron 1704067205 ''t1'' 0 example_schedule
            (initial None 60)
          = Inr (example_schedule\<lparr>last_run := Some 1704067205, send_at := 1704153600\<rparr>, s') \<and>
         ready_queue s' = [(2, 1, ''t1'')]"
    using f(1) q by simp
  have 2: "next_cron_time example_zone example_cron 1704067200 ''0 9 * * *'' ''Asia/Tokyo'' = Inr 1704153600"
    using f(2) s by simp
  have 3: "to_utc example_zone 1704153600 ''Asia/Tokyo'' = Inr 1704121200"
    using f(3) s by simp
  from 1 2 3 show ?thesis by blast
qed

end
